theory Spec2Isabelle
  imports Complex_Main
begin

section \<open>Data model (types.ts)\<close>

text \<open>
  The enum \<open>NodeType\<close>; every member's string value is its own name.
\<close>

datatype NodeType = Person | Organization | Location | Event | Concept | Document | Artifact | Class

fun NodeType_value :: "NodeType \<Rightarrow> string" where
  "NodeType_value Person = ''Person''"
| "NodeType_value Organization = ''Organization''"
| "NodeType_value Location = ''Location''"
| "NodeType_value Event = ''Event''"
| "NodeType_value Concept = ''Concept''"
| "NodeType_value Document = ''Document''"
| "NodeType_value Artifact = ''Artifact''"
| "NodeType_value Class = ''Class''"

datatype prop_value = PStr string | PNum real

text \<open>
  The interface \<open>GraphNode\<close>. The fields \<open>id\<close>, \<open>label\<close>, \<open>type\<close>, \<open>x\<close>, \<open>y\<close>, ... carry
  the prefix \<open>node_\<close> here; an optional field that is absent (or \<open>null\<close>) is \<open>None\<close>.
  JavaScript numbers are modelled as reals. The nodes come out of parsed responses that
  the code does not check and whose schema requires no property: \<open>node_type\<close> is the string
  that the node object has as its \<open>type\<close> (a value of the enum in a response that follows
  the schema), and \<open>None\<close> in a node object without that property (\<open>node.type\<close> is
  \<open>undefined\<close>). A node object is taken to have its \<open>id\<close> and its \<open>label\<close>, a link object
  its \<open>predicate\<close> and its \<open>label\<close>.
\<close>

record GraphNode =
  node_id :: string
  node_label :: string
  node_type :: "string option"
  node_properties :: "(string \<times> prop_value) list option"
  node_x :: "real option"
  node_y :: "real option"
  node_vx :: "real option"
  node_vy :: "real option"
  node_fx :: "real option"
  node_fy :: "real option"

text \<open>
  An endpoint of a link is \<open>string | GraphNode\<close>: the id, or the node object once the
  layout has processed the link. In a link that comes out of a parsed response the
  property may also be missing (\<open>Undefined\<close>) or be \<open>null\<close> (\<open>Null\<close>).
\<close>

datatype endpoint = Ref string | Obj GraphNode | Undefined | Null

record GraphLink =
  source :: endpoint
  target :: endpoint
  predicate :: string
  link_label :: string
  isOntologyLink :: "bool option"

record KnowledgeGraphData =
  nodes :: "GraphNode list"
  links :: "GraphLink list"

text \<open>
  A value that the type system calls an array but that need not be one at run time:
  \<open>NotArray\<close> stands for any value for which \<open>Array.isArray\<close> is false (and which has no
  array methods). The elements of an array that comes out of a parsed response are
  objects or \<open>null\<close>: a candidate list has elements of an option type, \<open>None\<close> being \<open>null\<close>.
\<close>

datatype 'a js_array = NotArray | Array "'a list"

text \<open>
  What the code can throw: a TypeError of the runtime, \<open>new Error("API Key not found")\<close>, and
  whatever a call to the model rejects with.
\<close>

datatype error = TypeError | ApiKeyNotFound | CallFailed

text \<open>\<open>Array.prototype.map\<close> and \<open>filter\<close> with a callback that may raise.\<close>

fun js_map :: "('a \<Rightarrow> error + 'b) \<Rightarrow> 'a list \<Rightarrow> error + 'b list" where
  "js_map f [] = Inr []"
| "js_map f (x # xs) =
     (case f x of
        Inl e \<Rightarrow> Inl e
      | Inr y \<Rightarrow> (case js_map f xs of Inl e \<Rightarrow> Inl e | Inr ys \<Rightarrow> Inr (y # ys)))"

fun js_filter :: "('a \<Rightarrow> error + bool) \<Rightarrow> 'a list \<Rightarrow> error + 'a list" where
  "js_filter p [] = Inr []"
| "js_filter p (x # xs) =
     (case p x of
        Inl e \<Rightarrow> Inl e
      | Inr b \<Rightarrow> (case js_filter p xs of
                    Inl e \<Rightarrow> Inl e
                  | Inr ys \<Rightarrow> Inr (if b then x # ys else ys)))"

section \<open>The canonical graph and its merge (App.tsx)\<close>

definition mkClass :: "string \<Rightarrow> GraphNode" where
  "mkClass c = \<lparr>node_id = c, node_label = c, node_type = Some (NodeType_value Class),
     node_properties = None,
     node_x = Some 0, node_y = Some 0, node_vx = None, node_vy = None,
     node_fx = None, node_fy = None\<rparr>"

definition STANDARD_CLASSES :: "GraphNode list" where
  "STANDARD_CLASSES = map mkClass
     [''Person'', ''Organization'', ''Location'', ''Event'', ''Concept'', ''Document'', ''Artifact'']"

text \<open>
  \<open>typeof e === 'object' ? e.id : e\<close>. The type of \<open>null\<close> is \<open>'object'\<close>, and reading
  \<open>null.id\<close> raises a TypeError; a missing endpoint gives \<open>undefined\<close> (\<open>None\<close>).
\<close>

fun endpointId :: "endpoint \<Rightarrow> error + string option" where
  "endpointId (Ref s) = Inr (Some s)"
| "endpointId (Obj n) = Inr (Some (node_id n))"
| "endpointId Undefined = Inr None"
| "endpointId Null = Inl TypeError"

text \<open>A string or \<open>undefined\<close> inside a template string.\<close>

fun interpolate :: "string option \<Rightarrow> string" where
  "interpolate (Some s) = s"
| "interpolate None = ''undefined''"

text \<open>The signature of a link: \<open>s\<close> and \<open>t\<close> as above, then \<open>`${s}-${t}-${l.predicate}`\<close>.\<close>

definition linkSig :: "GraphLink \<Rightarrow> error + string" where
  "linkSig l =
     (case endpointId (source l) of
        Inl e \<Rightarrow> Inl e
      | Inr s \<Rightarrow> (case endpointId (target l) of
                    Inl e \<Rightarrow> Inl e
                  | Inr t \<Rightarrow> Inr (interpolate s @ ''-'' @ interpolate t @ ''-'' @ predicate l)))"

text \<open>
  \<open>newNodes.filter(n => !existingIds.has(n.id))\<close>: reading \<open>n.id\<close> of a \<open>null\<close> element
  raises a TypeError.
\<close>

fun uniqueNewNodes :: "KnowledgeGraphData \<Rightarrow> GraphNode option list \<Rightarrow> error + GraphNode list" where
  "uniqueNewNodes prev [] = Inr []"
| "uniqueNewNodes prev (None # rest) = Inl TypeError"
| "uniqueNewNodes prev (Some n # rest) =
     (case uniqueNewNodes prev rest of
        Inl e \<Rightarrow> Inl e
      | Inr ns \<Rightarrow> Inr (if node_id n \<notin> set (map node_id (nodes prev)) then n # ns else ns))"

text \<open>
  The \<open>forEach\<close> that initialises positions. \<open>Math.random()\<close> is an input of the model: the
  stream \<open>rnd\<close>, read at index \<open>k\<close> for \<open>x\<close> and \<open>k + 1\<close> for \<open>y\<close> of each node in turn.
  The source writes the coordinates into the candidate objects; the candidates of a batch
  are taken to be objects of their own, none of them an object of the previous graph.
\<close>

fun initPositions :: "(nat \<Rightarrow> real) \<Rightarrow> nat \<Rightarrow> GraphNode list \<Rightarrow> GraphNode list" where
  "initPositions rnd k [] = []"
| "initPositions rnd k (n # ns) =
     n\<lparr>node_x := Some (400 + (rnd k - 0.5) * 50),
       node_y := Some (300 + (rnd (k + 1) - 0.5) * 50)\<rparr>
     # initPositions rnd (k + 2) ns"

definition existingLinkSigs :: "KnowledgeGraphData \<Rightarrow> error + string list" where
  "existingLinkSigs prev = js_map linkSig (links prev)"

definition safeLinks :: "'a js_array \<Rightarrow> 'a list" where
  "safeLinks newLinks = (case newLinks of Array ls \<Rightarrow> ls | NotArray \<Rightarrow> [])"

text \<open>
  \<open>safeLinks.filter(l => !existingLinkSigs.has(...))\<close> against the signatures \<open>sigs\<close>: reading
  \<open>l.source\<close> of a \<open>null\<close> element raises a TypeError, and so does the signature of a link
  with a \<open>null\<close> endpoint.
\<close>

fun newLinksAgainst :: "string list \<Rightarrow> GraphLink option list \<Rightarrow> error + GraphLink list" where
  "newLinksAgainst sigs [] = Inr []"
| "newLinksAgainst sigs (None # rest) = Inl TypeError"
| "newLinksAgainst sigs (Some l # rest) =
     (case linkSig l of
        Inl e \<Rightarrow> Inl e
      | Inr sg \<Rightarrow> (case newLinksAgainst sigs rest of
                     Inl e \<Rightarrow> Inl e
                   | Inr ls \<Rightarrow> Inr (if sg \<notin> set sigs then l # ls else ls)))"

definition uniqueNewLinks :: "KnowledgeGraphData \<Rightarrow> GraphLink option list \<Rightarrow> error + GraphLink list" where
  "uniqueNewLinks prev ls =
     (case existingLinkSigs prev of Inl e \<Rightarrow> Inl e | Inr sigs \<Rightarrow> newLinksAgainst sigs ls)"

text \<open>
  \<open>mergeGraphData\<close>: the updater that the function hands to \<open>setGraphData\<close>, applied to the
  previous graph \<open>prev\<close>, together with the flag \<open>hasChanges\<close> that the updater sets and the
  function returns (the updater is taken to run at the call). The result is the next graph
  state and the flag; \<open>Inl\<close> says that the updater raises. \<open>newNodes.filter\<close> is the first
  operation on \<open>newNodes\<close> and raises a TypeError when \<open>newNodes\<close> is not an array;
  \<open>newLinks\<close> goes through \<open>Array.isArray\<close> first.
\<close>

definition mergeGraphData ::
  "(nat \<Rightarrow> real) \<Rightarrow> KnowledgeGraphData \<Rightarrow> GraphNode option js_array
     \<Rightarrow> GraphLink option js_array \<Rightarrow> error + (KnowledgeGraphData \<times> bool)" where
  "mergeGraphData rnd prev newNodes newLinks =
     (case newNodes of
        NotArray \<Rightarrow> Inl TypeError
      | Array ns \<Rightarrow>
          (case uniqueNewNodes prev ns of
             Inl e \<Rightarrow> Inl e
           | Inr nn \<Rightarrow>
               (case uniqueNewLinks prev (safeLinks newLinks) of
                  Inl e \<Rightarrow> Inl e
                | Inr ul \<Rightarrow>
                    (let un = initPositions rnd 0 nn
                     in if length un = 0 \<and> length ul = 0 then Inr (prev, False)
                        else Inr (\<lparr>nodes = nodes prev @ un, links = links prev @ ul\<rparr>, True)))))"

section \<open>The filtered view (App.tsx)\<close>

text \<open>The filter state; \<open>nodeTypeFilter = None\<close> is the option \<open>'ALL'\<close>.\<close>

record Filters =
  nodeTypeFilter :: "NodeType option"
  showOntology :: bool
  searchTerm :: string

definition filteredNodes :: "KnowledgeGraphData \<Rightarrow> Filters \<Rightarrow> GraphNode list" where
  "filteredNodes graphData f =
     filter (\<lambda>node.
        if \<not> showOntology f \<and> node_type node = Some (NodeType_value Class) then False
        else if nodeTypeFilter f \<noteq> None
                \<and> node_type node \<noteq> map_option NodeType_value (nodeTypeFilter f) then False
        else True) (nodes graphData)"

text \<open>
  The callback of \<open>graphData.links.filter\<close>: \<open>n.id === sourceId\<close> is false for every node
  when \<open>sourceId\<close> is \<open>undefined\<close>.
\<close>

definition linkVisible :: "GraphNode list \<Rightarrow> GraphLink \<Rightarrow> error + bool" where
  "linkVisible shown link =
     (case endpointId (source link) of
        Inl e \<Rightarrow> Inl e
      | Inr sourceId \<Rightarrow>
          (case endpointId (target link) of
             Inl e \<Rightarrow> Inl e
           | Inr targetId \<Rightarrow>
               (let sourceExists = find (\<lambda>n. Some (node_id n) = sourceId) shown;
                    targetExists = find (\<lambda>n. Some (node_id n) = targetId) shown
                in Inr (sourceExists \<noteq> None \<and> targetExists \<noteq> None))))"

definition filteredLinks :: "KnowledgeGraphData \<Rightarrow> Filters \<Rightarrow> error + GraphLink list" where
  "filteredLinks graphData f =
     js_filter (linkVisible (filteredNodes graphData f)) (links graphData)"

section \<open>Heuristic type linking (geminiService.ts)\<close>

text \<open>
  The part of \<open>extractKnowledgeGraph\<close> and of \<open>performShaclScan\<close> that runs, inside the
  \<open>try\<close>, after the model's response has been parsed into the arrays \<open>nodes\<close> and \<open>links\<close>.

  \<open>links.some(l => l.source === node.id && l.predicate === 'rdf:type')\<close>: strict equality with
  the string \<open>node.id\<close> holds for a string endpoint only; \<open>some\<close> stops at the first link that
  matches, and reading \<open>l.source\<close> of a \<open>null\<close> element before that raises a TypeError.
\<close>

fun hasTypeLink :: "GraphLink option list \<Rightarrow> string \<Rightarrow> error + bool" where
  "hasTypeLink [] i = Inr False"
| "hasTypeLink (None # rest) i = Inl TypeError"
| "hasTypeLink (Some l # rest) i =
     (if source l = Ref i \<and> predicate l = ''rdf:type'' then Inr True else hasTypeLink rest i)"

text \<open>The link that is pushed for a node, toward \<open>t\<close>.\<close>

definition typeLink :: "GraphNode \<Rightarrow> endpoint \<Rightarrow> GraphLink" where
  "typeLink node t = \<lparr>source = Ref (node_id node), target = t,
     predicate = ''rdf:type'', link_label = ''type'', isOntologyLink = Some True\<rparr>"

text \<open>
  The \<open>forEach\<close> of \<open>extractKnowledgeGraph\<close>. Reading \<open>node.type\<close> of a \<open>null\<close> node raises a
  TypeError. \<open>if (targetClassId)\<close> is false for a node without a type and for the empty
  string.
\<close>

fun extractLinking :: "GraphNode option list \<Rightarrow> GraphLink option list \<Rightarrow> error + GraphLink option list" where
  "extractLinking [] ls = Inr ls"
| "extractLinking (None # rest) ls = Inl TypeError"
| "extractLinking (Some node # rest) ls =
     (if node_type node = Some (NodeType_value Class) then extractLinking rest ls
      else (case hasTypeLink ls (node_id node) of
              Inl e \<Rightarrow> Inl e
            | Inr found \<Rightarrow>
                if \<not> found then
                  (case node_type node of
                     None \<Rightarrow> extractLinking rest ls
                   | Some targetClassId \<Rightarrow>
                       if targetClassId \<noteq> []
                       then extractLinking rest
                              (ls @ [Some (typeLink node (Ref targetClassId))])
                       else extractLinking rest ls)
                else extractLinking rest ls))"

text \<open>
  The callback of the final \<open>links.map\<close> of \<open>extractKnowledgeGraph\<close>; reading \<open>l.predicate\<close> of
  a \<open>null\<close> element raises a TypeError.
\<close>

fun markOntologyLink :: "string list \<Rightarrow> GraphLink option \<Rightarrow> error + GraphLink option" where
  "markOntologyLink existingClasses None = Inl TypeError"
| "markOntologyLink existingClasses (Some l) =
     Inr (Some (l\<lparr>isOntologyLink := Some (predicate l = ''rdf:type''
                    \<or> predicate l = ''rdfs:subClassOf''
                    \<or> (case target l of Ref t \<Rightarrow> t \<in> set existingClasses | _ \<Rightarrow> False))\<rparr>))"

text \<open>
  What \<open>extractKnowledgeGraph\<close> returns for the parsed arrays \<open>ns\<close> and \<open>ls\<close>: the nodes and the
  links after the two steps, or, when one of them raises, the empty batch of the \<open>catch\<close>.
\<close>

definition extractKnowledgeGraph_result ::
  "GraphNode option list \<Rightarrow> GraphLink option list \<Rightarrow> string list
     \<Rightarrow> GraphNode option list \<times> GraphLink option list" where
  "extractKnowledgeGraph_result ns ls existingClasses =
     (case extractLinking ns ls of
        Inl e \<Rightarrow> ([], [])
      | Inr linked \<Rightarrow>
          (case js_map (markOntologyLink existingClasses) linked of
             Inl e \<Rightarrow> ([], [])
           | Inr marked \<Rightarrow> (ns, marked)))"

text \<open>
  \<open>node.type\<close> as the target of a link: the string, or \<open>undefined\<close> for a node without a
  type.
\<close>

definition typeTarget :: "GraphNode \<Rightarrow> endpoint" where
  "typeTarget node = (case node_type node of Some t \<Rightarrow> Ref t
                                          | None \<Rightarrow> Undefined)"

text \<open>
  The \<open>forEach\<close> of \<open>performShaclScan\<close>: no test of the type, the target is \<open>node.type\<close>.
\<close>

fun shaclLinking :: "GraphNode option list \<Rightarrow> GraphLink option list \<Rightarrow> error + GraphLink option list" where
  "shaclLinking [] ls = Inr ls"
| "shaclLinking (None # rest) ls = Inl TypeError"
| "shaclLinking (Some node # rest) ls =
     (if node_type node = Some (NodeType_value Class) then shaclLinking rest ls
      else (case hasTypeLink ls (node_id node) of
              Inl e \<Rightarrow> Inl e
            | Inr found \<Rightarrow>
                if \<not> found then
                  shaclLinking rest
                    (ls @ [Some (typeLink node (typeTarget node))])
                else shaclLinking rest ls))"

definition performShaclScan_result ::
  "GraphNode option list \<Rightarrow> GraphLink option list
     \<Rightarrow> GraphNode option list \<times> GraphLink option list" where
  "performShaclScan_result ns ls =
     (case shaclLinking ns ls of Inl e \<Rightarrow> ([], []) | Inr linked \<Rightarrow> (ns, linked))"

section \<open>Properties of a graph\<close>

text \<open>An endpoint is the id of a node of the list.\<close>

definition endpointIn :: "GraphNode list \<Rightarrow> endpoint \<Rightarrow> bool" where
  "endpointIn ns e = (case endpointId e of
       Inr (Some s) \<Rightarrow> s \<in> set (map node_id ns)
     | _ \<Rightarrow> False)"

text \<open>A link resolves in a node list when both its endpoint ids are ids of nodes there.\<close>

definition resolves :: "GraphNode list \<Rightarrow> GraphLink \<Rightarrow> bool" where
  "resolves ns l \<longleftrightarrow> endpointIn ns (source l) \<and> endpointIn ns (target l)"

definition noDangling :: "KnowledgeGraphData \<Rightarrow> bool" where
  "noDangling g = list_all (resolves (nodes g)) (links g)"

text \<open>The identity triple of a link.\<close>

definition linkTriple :: "GraphLink \<Rightarrow> (error + string option) \<times> (error + string option) \<times> string" where
  "linkTriple l = (endpointId (source l), endpointId (target l), predicate l)"

text \<open>A node has an outgoing \<open>rdf:type\<close> link in a graph.\<close>

definition typed :: "KnowledgeGraphData \<Rightarrow> GraphNode \<Rightarrow> bool" where
  "typed g n = list_ex (\<lambda>l. endpointId (source l) = Inr (Some (node_id n))
                            \<and> predicate l = ''rdf:type'') (links g)"

text \<open>A list of candidate links has an \<open>rdf:type\<close> link from the id \<open>i\<close>.\<close>

definition typeLinked :: "GraphLink option list \<Rightarrow> string \<Rightarrow> bool" where
  "typeLinked ls i = list_ex (\<lambda>x. case x of
       Some l \<Rightarrow> source l = Ref i \<and> predicate l = ''rdf:type''
     | None \<Rightarrow> False) ls"

text \<open>A link has a \<open>null\<close> endpoint.\<close>

definition nullEndpoint :: "GraphLink \<Rightarrow> bool" where
  "nullEndpoint l \<longleftrightarrow> source l = Null \<or> target l = Null"

section \<open>Concrete data\<close>

text \<open>A node and a link as they come out of a parsed response: only the schema's fields.\<close>

definition mkNode :: "string \<Rightarrow> string \<Rightarrow> NodeType \<Rightarrow> GraphNode" where
  "mkNode i l t = \<lparr>node_id = i, node_label = l, node_type = Some (NodeType_value t),
     node_properties = None,
     node_x = None, node_y = None, node_vx = None, node_vy = None,
     node_fx = None, node_fy = None\<rparr>"

definition mkLink :: "string \<Rightarrow> string \<Rightarrow> string \<Rightarrow> string \<Rightarrow> GraphLink" where
  "mkLink s t p l = \<lparr>source = Ref s, target = Ref t, predicate = p, link_label = l,
     isOntologyLink = None\<rparr>"

text \<open>The type link that is pushed for a node toward the string \<open>t\<close>.\<close>

definition kindLink :: "GraphNode \<Rightarrow> string \<Rightarrow> GraphLink" where
  "kindLink node t = typeLink node (Ref t)"

text \<open>A new node after \<open>mergeGraphData\<close> has placed it with \<open>Math.random() = 0.5\<close>.\<close>

definition placed :: "GraphNode \<Rightarrow> GraphNode" where
  "placed n = n\<lparr>node_x := Some 400, node_y := Some 300\<rparr>"

definition rnd_half :: "nat \<Rightarrow> real" where
  "rnd_half k = 0.5"

text \<open>The graph that \<open>loadIntel\<close> starts from.\<close>

definition seedGraph :: KnowledgeGraphData where
  "seedGraph = \<lparr>nodes = STANDARD_CLASSES, links = []\<rparr>"

definition classIds :: "string list" where
  "classIds = map node_id STANDARD_CLASSES"

definition unNode :: GraphNode where
  "unNode = mkNode ''UN'' ''United Nations'' Organization"

definition unMemberOf :: GraphLink where
  "unMemberOf = mkLink ''UN'' ''SecurityCouncil'' ''org:memberOf'' ''member of''"

definition unType :: GraphLink where
  "unType = kindLink unNode ''Organization''"

definition aliceNode :: GraphNode where
  "aliceNode = mkNode ''Alice'' ''Alice'' Person"

definition acmeNode :: GraphNode where
  "acmeNode = mkNode ''Acme'' ''Acme Corp'' Organization"

definition aliceMemberOf :: GraphLink where
  "aliceMemberOf = mkLink ''Alice'' ''Acme'' ''org:memberOf'' ''member of''"

text \<open>
  The batch of the scenario "United Nations, member of a Security Council that does not
  exist", as \<open>extractKnowledgeGraph\<close> returns it, and the graph after its merge.
\<close>

definition unBatch :: "GraphNode option list \<times> GraphLink option list" where
  "unBatch = extractKnowledgeGraph_result [Some unNode] [Some unMemberOf] classIds"

definition unMerged :: KnowledgeGraphData where
  "unMerged = \<lparr>nodes = STANDARD_CLASSES @ [placed unNode],
      links = [unMemberOf\<lparr>isOntologyLink := Some False\<rparr>, unType]\<rparr>"

definition unTyped :: KnowledgeGraphData where
  "unTyped = \<lparr>nodes = STANDARD_CLASSES @ [placed unNode], links = [unType]\<rparr>"

text \<open>
  The scenario of the type filter: one Person node linked to one Organization node, in a
  graph that holds the pre-seeded classes.
\<close>

definition personOrgGraph :: KnowledgeGraphData where
  "personOrgGraph = \<lparr>nodes = STANDARD_CLASSES @ [placed aliceNode, placed acmeNode],
      links = [aliceMemberOf]\<rparr>"

definition personFilter :: Filters where
  "personFilter = \<lparr>nodeTypeFilter = Some Person, showOntology = True, searchTerm = []\<rparr>"

definition allFilter :: Filters where
  "allFilter = \<lparr>nodeTypeFilter = None, showOntology = True, searchTerm = []\<rparr>"

text \<open>A second candidate with the id \<open>UN\<close>, and one that changes label and kind.\<close>

definition unNode2 :: GraphNode where
  "unNode2 = mkNode ''UN'' ''UN'' Organization"

definition unRenamed :: GraphNode where
  "unRenamed = mkNode ''UN'' ''Union'' Person"

definition bobNode :: GraphNode where
  "bobNode = mkNode ''Bob'' ''Bob'' Person"

definition bobBatch :: "GraphNode option list \<times> GraphLink option list" where
  "bobBatch = extractKnowledgeGraph_result [Some bobNode] [] classIds"

definition aliceUntyped :: KnowledgeGraphData where
  "aliceUntyped = \<lparr>nodes = STANDARD_CLASSES @ [placed aliceNode], links = []\<rparr>"

definition aliceBob :: KnowledgeGraphData where
  "aliceBob = \<lparr>nodes = STANDARD_CLASSES @ [placed aliceNode, placed bobNode],
      links = [kindLink bobNode ''Person'']\<rparr>"

definition unBob :: KnowledgeGraphData where
  "unBob = \<lparr>nodes = nodes unMerged @ [placed bobNode], links = links unMerged\<rparr>"

text \<open>
  A node object without a type, \<open>{id: "Storm", label: "Storm"}\<close>, one with the empty string
  as its type, and a link whose source is \<open>null\<close>,
  \<open>{source: null, target: "UN", predicate: "org:memberOf", label: "member of"}\<close>.
\<close>

definition blankNode :: GraphNode where
  "blankNode = (mkNode ''Blank'' ''Blank'' Event)\<lparr>node_type := Some []\<rparr>"

definition stormNode :: GraphNode where
  "stormNode = (mkNode ''Storm'' ''Storm'' Event)\<lparr>node_type := None\<rparr>"

definition nullSourceLink :: GraphLink where
  "nullSourceLink = (mkLink ''UN'' ''UN'' ''org:memberOf'' ''member of'')\<lparr>source := Null\<rparr>"

section \<open>The background queue (App.tsx)\<close>

text \<open>
  Time is counted in milliseconds. A timer fires when its delay has passed, and the
  synchronous code between two \<open>await\<close>s takes no time.

  \<open>processBackgroundQueue\<close>: for each item in turn the loop awaits a timer of 0 ms (first item)
  or 2000 ms (every other item), then calls \<open>analyzeArticle\<close> and goes on; the call is not
  awaited. The result lists the calls of \<open>analyzeArticle\<close> with the time at which each is
  made; \<open>i\<close> is the loop index and \<open>now\<close> the time at which the loop reaches it.
\<close>

fun processBackgroundQueue :: "nat \<Rightarrow> nat \<Rightarrow> 'a list \<Rightarrow> (nat \<times> 'a) list" where
  "processBackgroundQueue i now [] = []"
| "processBackgroundQueue i now (article # items) =
     (let called = now + (if i = 0 then 0 else 2000)
      in (called, article) # processBackgroundQueue (i + 1) called items)"

text \<open>
  \<open>analyzeArticle\<close>, called at time \<open>called\<close> for an article whose enrichment call
  (\<open>extractKnowledgeGraph\<close>) takes \<open>latency\<close> ms to settle: the article id enters
  \<open>processingIds\<close> at once; when the call has settled the batch is merged and the id leaves
  \<open>processingIds\<close>. An item of the queue is the pair of the article id and that latency.
\<close>

record run =
  subject :: string
  begins :: nat
  settles :: nat

definition analyzeArticle :: "nat \<times> string \<times> nat \<Rightarrow> run" where
  "analyzeArticle c = (case c of (called, article_id, latency) \<Rightarrow>
     \<lparr>subject = article_id, begins = called, settles = called + latency\<rparr>)"

definition schedule :: "(string \<times> nat) list \<Rightarrow> run list" where
  "schedule items = map analyzeArticle (processBackgroundQueue 0 0 items)"

text \<open>Each subject has settled (and is merged) before the next one begins.\<close>

fun sequential :: "run list \<Rightarrow> bool" where
  "sequential (r # r' # rs) = (settles r \<le> begins r' \<and> sequential (r' # rs))"
| "sequential rs = True"

text \<open>The contents of \<open>processingIds\<close> at a time \<open>t\<close>.\<close>

definition processingIds :: "run list \<Rightarrow> nat \<Rightarrow> string list" where
  "processingIds rs t = map subject (filter (\<lambda>r. begins r \<le> t \<and> t < settles r) rs)"

text \<open>The order in which the merges are applied: the order in which the calls settle.\<close>

definition mergeOrder :: "run list \<Rightarrow> string list" where
  "mergeOrder rs = map subject (sort_key settles rs)"

definition slowThenFast :: "(string \<times> nat) list" where
  "slowThenFast = [(''news-a'', 5000), (''news-b'', 100)]"

definition allFast :: "(string \<times> nat) list" where
  "allFast = [(''news-a'', 800), (''news-b'', 2000), (''news-c'', 7000)]"

section \<open>The intel feed (geminiService.ts)\<close>

text \<open>
  A value as \<open>JSON.parse\<close> returns it. The properties of an object are listed in the order
  in which \<open>Object.values\<close> enumerates them.
\<close>

datatype json = JNull | JBool bool | JNum real | JStr string
  | JArr "json list" | JObj "(string \<times> json) list"

text \<open>Truthiness, as \<open>||\<close> and \<open>&&\<close> test it.\<close>

fun truthy :: "json \<Rightarrow> bool" where
  "truthy JNull = False"
| "truthy (JBool b) = b"
| "truthy (JNum n) = (n \<noteq> 0)"
| "truthy (JStr s) = (s \<noteq> [])"
| "truthy (JArr xs) = True"
| "truthy (JObj kvs) = True"

fun isArray :: "json \<Rightarrow> bool" where
  "isArray (JArr xs) = True"
| "isArray j = False"

text \<open>
  Reading one of the properties \<open>title\<close>, \<open>summary\<close>, \<open>source\<close>, \<open>riskLevel\<close>, \<open>semanticTags\<close>
  of a parsed value: a TypeError on \<open>null\<close>, \<open>undefined\<close> (here \<open>None\<close>) on a boolean, a
  number, a string, an array and on an object without the property.
\<close>

fun getProp :: "json \<Rightarrow> string \<Rightarrow> error + json option" where
  "getProp JNull k = Inl TypeError"
| "getProp (JObj kvs) k = Inr (map_of kvs k)"
| "getProp j k = Inr None"

text \<open>\<open>v || d\<close> for a property value \<open>v\<close> and a string \<open>d\<close>.\<close>

fun orDefault :: "json option \<Rightarrow> string \<Rightarrow> json" where
  "orDefault None d = JStr d"
| "orDefault (Some v) d = (if truthy v then v else JStr d)"

text \<open>
  The interface \<open>NewsArticle\<close>. The fields that are copied from the response hold whatever
  value the response had there.
\<close>

record NewsArticle =
  article_id :: string
  title :: json
  summary :: json
  article_source :: json
  timestamp :: string
  url :: string
  semanticTags :: "json list"
  riskLevel :: json

text \<open>
  What the function reads from the response of the model: \<open>response.text\<close>, and for each
  index the \<open>web.uri\<close> of the grounding chunk of the first candidate at that index
  (\<open>None\<close> wherever the optional chain ends in \<open>undefined\<close>).
\<close>

record response =
  response_text :: "string option"
  chunk_uri :: "nat \<Rightarrow> string option"

datatype call_outcome = Throws | Returns response

text \<open>
  The surroundings of a call of \<open>fetchGlobalIntel\<close>: the API key of the process, the
  outcome of \<open>generateContent\<close> for a prompt with the given context sentence,
  \<open>JSON.parse\<close> (\<open>None\<close> when it throws), the values of \<open>Date.now()\<close> and of
  \<open>new Date().toISOString()\<close> in the callback for each index, and the latter in the
  \<open>catch\<close> block.
\<close>

record env =
  API_KEY :: "string option"
  generateContent :: "string \<Rightarrow> call_outcome"
  JSON_parse :: "string \<Rightarrow> json option"
  Date_now :: "nat \<Rightarrow> nat"
  toISOString :: "nat \<Rightarrow> string"
  toISOString_catch :: string

text \<open>\<open>initAi\<close> returns \<open>null\<close> when the key is \<open>undefined\<close> or empty.\<close>

definition initAi :: "env \<Rightarrow> bool" where
  "initAi e = (case API_KEY e of None \<Rightarrow> False | Some key \<Rightarrow> key \<noteq> [])"

text \<open>A number in a template string.\<close>

fun showNat :: "nat \<Rightarrow> string" where
  "showNat n = (if n < 10 then [''0123456789'' ! n]
                else showNat (n div 10) @ [''0123456789'' ! (n mod 10)])"

declare showNat.simps [simp del]

text \<open>The constant \<open>context\<close> of the source.\<close>

definition promptContext :: "string option \<Rightarrow> string" where
  "promptContext topic = (case topic of
       Some t \<Rightarrow> if t \<noteq> [] then ''Focus strictly on the topic: '' @ [CHR 0x22] @ t @ [CHR 0x22]
                     @ ''. Find connections to this topic globally.''
                 else ''Focus on: Geopolitics, Cyber Threats, Environmental Disasters, and Major Technological Shifts.''
     | None \<Rightarrow> ''Focus on: Geopolitics, Cyber Threats, Environmental Disasters, and Major Technological Shifts.'')"

text \<open>The block "Ensure data is an array", from the parsed value to the list that is mapped.\<close>

definition ensureArray :: "json \<Rightarrow> json list" where
  "ensureArray data = (case data of
       JArr xs \<Rightarrow> xs
     | JObj kvs \<Rightarrow> (case find isArray (map snd kvs) of Some (JArr xs) \<Rightarrow> xs | _ \<Rightarrow> [])
     | _ \<Rightarrow> [])"

text \<open>The callback of \<open>data.map\<close>.\<close>

definition mkArticle :: "env \<Rightarrow> response \<Rightarrow> nat \<Rightarrow> json \<Rightarrow> error + NewsArticle" where
  "mkArticle e r index item =
     (case getProp item ''title'' of Inl err \<Rightarrow> Inl err | Inr t \<Rightarrow>
      case getProp item ''summary'' of Inl err \<Rightarrow> Inl err | Inr s \<Rightarrow>
      case getProp item ''source'' of Inl err \<Rightarrow> Inl err | Inr src \<Rightarrow>
      case getProp item ''riskLevel'' of Inl err \<Rightarrow> Inl err | Inr risk \<Rightarrow>
      case getProp item ''semanticTags'' of Inl err \<Rightarrow> Inl err | Inr tags \<Rightarrow>
        Inr \<lparr>article_id = ''news-'' @ showNat (Date_now e index) @ ''-'' @ showNat index,
             title = orDefault t ''Unknown Event'',
             summary = orDefault s ''No details available.'',
             article_source = orDefault src ''Unknown Source'',
             timestamp = toISOString e index,
             url = (case chunk_uri r index of
                      Some u \<Rightarrow> if u \<noteq> [] then u else ''#'' | None \<Rightarrow> ''#''),
             semanticTags = (case tags of Some (JArr xs) \<Rightarrow> xs | _ \<Rightarrow> []),
             riskLevel = orDefault risk ''LOW''\<rparr>)"

text \<open>\<open>data.map\<close>: the callback on each item with its index; the first exception ends it.\<close>

fun mapArticles :: "env \<Rightarrow> response \<Rightarrow> nat \<Rightarrow> json list \<Rightarrow> error + NewsArticle list" where
  "mapArticles e r index [] = Inr []"
| "mapArticles e r index (item # items) =
     (case mkArticle e r index item of
        Inl err \<Rightarrow> Inl err
      | Inr a \<Rightarrow> (case mapArticles e r (index + 1) items of
                    Inl err \<Rightarrow> Inl err
                  | Inr as \<Rightarrow> Inr (a # as)))"

text \<open>The article that the \<open>catch\<close> block returns.\<close>

definition fallbackArticle :: "env \<Rightarrow> NewsArticle" where
  "fallbackArticle e =
     \<lparr>article_id = ''mock-1'',
      title = JStr ''System Offline: Neural Net Breach'',
      summary = JStr ''A localized failure in the semantic grid has caused data packet loss. Provenance chains broken.'',
      article_source = JStr ''Internal Sensors'',
      timestamp = toISOString_catch e,
      url = ''#'',
      semanticTags = [JStr ''prov:Invalidation'', JStr ''sec:Breach''],
      riskLevel = JStr ''HIGH''\<rparr>"

text \<open>The parsed data: \<open>JSON.parse(response.text || "[]")\<close> inside its own \<open>try\<close>.\<close>

definition parsedData :: "env \<Rightarrow> response \<Rightarrow> json" where
  "parsedData e r =
     (case JSON_parse e (case response_text r of Some t \<Rightarrow> if t \<noteq> [] then t else ''[]''
                                                | None \<Rightarrow> ''[]'') of
        None \<Rightarrow> JArr []
      | Some data \<Rightarrow> data)"

text \<open>The body of the outer \<open>try\<close>.\<close>

definition fetchBody :: "env \<Rightarrow> string option \<Rightarrow> error + NewsArticle list" where
  "fetchBody e topic =
     (case generateContent e (promptContext topic) of
        Throws \<Rightarrow> Inl CallFailed
      | Returns r \<Rightarrow> mapArticles e r 0 (ensureArray (parsedData e r)))"

text \<open>\<open>fetchGlobalIntel\<close>: \<open>Inl\<close> is a rejected promise, \<open>Inr\<close> a resolved one.\<close>

definition fetchGlobalIntel :: "env \<Rightarrow> string option \<Rightarrow> error + NewsArticle list" where
  "fetchGlobalIntel e topic =
     (if \<not> initAi e then Inl ApiKeyNotFound
      else case fetchBody e topic of
             Inl err \<Rightarrow> Inr [fallbackArticle e]
           | Inr articles \<Rightarrow> Inr articles)"

text \<open>
  Surroundings for examples: a key is configured, the model returns \<open>demoResponse\<close> unless
  told otherwise, \<open>JSON.parse\<close> gives the stated value for the response text, the clock
  stands at 0.
\<close>

definition demoResponse :: response where
  "demoResponse = \<lparr>response_text = Some ''(the response text)'', chunk_uri = (\<lambda>i. None)\<rparr>"

definition demoEnv :: "call_outcome \<Rightarrow> json option \<Rightarrow> env" where
  "demoEnv outcome parsed = \<lparr>API_KEY = Some ''key'',
      generateContent = (\<lambda>c. outcome),
      JSON_parse = (\<lambda>s. parsed), Date_now = (\<lambda>i. 0), toISOString = (\<lambda>i. ''2026-01-01T00:00:00.000Z''),
      toISOString_catch = ''2026-01-01T00:00:00.000Z''\<rparr>"

definition nullItems :: json where
  "nullItems = JObj [(''items'', JArr [JNull])]"

definition floodItems :: json where
  "floodItems = JObj [(''count'', JNum 1), (''items'', JArr [JObj [(''title'', JStr ''Flood'')]])]"

definition floodArticle :: NewsArticle where
  "floodArticle = \<lparr>article_id = ''news-0-0'', title = JStr ''Flood'',
      summary = JStr ''No details available.'', article_source = JStr ''Unknown Source'',
      timestamp = ''2026-01-01T00:00:00.000Z'', url = ''#'', semanticTags = [],
      riskLevel = JStr ''LOW''\<rparr>"


section \<open>Auxiliary facts\<close>

named_theorems ev \<open>definitions unfolded to evaluate a concrete input\<close>

lemmas [ev] = mergeGraphData_def seedGraph_def STANDARD_CLASSES_def mkClass_def unNode_def mkNode_def
     uniqueNewLinks_def safeLinks_def existingLinkSigs_def placed_def rnd_half_def
     linkSig_def mkLink_def unMemberOf_def aliceNode_def acmeNode_def aliceMemberOf_def classIds_def
     endpointIn_def resolves_def noDangling_def linkTriple_def typed_def typeLink_def kindLink_def
     extractKnowledgeGraph_result_def performShaclScan_result_def nullEndpoint_def typeLinked_def typeTarget_def
     filteredNodes_def filteredLinks_def linkVisible_def unBatch_def unMerged_def unTyped_def
     unType_def personOrgGraph_def personFilter_def allFilter_def unNode2_def unRenamed_def
     bobNode_def bobBatch_def aliceUntyped_def aliceBob_def unBob_def stormNode_def
     nullSourceLink_def blankNode_def

lemma find_neq_None: "find P xs \<noteq> None \<longleftrightarrow> (\<exists>x \<in> set xs. P x)"
  by (auto simp: find_None_iff)

lemma find_Some_ex: "(\<exists>y. find P xs = Some y) \<longleftrightarrow> (\<exists>x \<in> set xs. P x)"
  using find_neq_None[of P xs] by auto

lemma find_append_Some: "find P xs = Some y \<Longrightarrow> find P (xs @ ys) = Some y"
  by (induction xs) (auto split: if_splits)

lemma no_None_map_Some: "None \<notin> set xs \<Longrightarrow> \<exists>ys. xs = map Some ys"
proof (induction xs)
  case Nil
  then show ?case by simp
next
  case (Cons x xs)
  then obtain ys where "xs = map Some ys" by auto
  moreover from Cons.prems obtain y where "x = Some y" by (cases x) auto
  ultimately have "x # xs = map Some (y # ys)" by simp
  then show ?case by (rule exI)
qed

subsection \<open>The array methods\<close>

lemma js_map_Inr:
  "js_map f xs = Inr ys \<Longrightarrow> list_all2 (\<lambda>x y. f x = Inr y) xs ys"
  by (induction xs arbitrary: ys) (auto split: sum.splits)

lemma js_map_total:
  "(\<And>x. x \<in> set xs \<Longrightarrow> \<exists>y. f x = Inr y) \<Longrightarrow> \<exists>ys. js_map f xs = Inr ys"
  by (induction xs) (fastforce split: sum.splits)+

lemma js_map_Inl:
  "js_map f xs = Inl e \<Longrightarrow> \<exists>x \<in> set xs. f x = Inl e"
  by (induction xs) (auto split: sum.splits)

lemma js_map_append:
  "js_map f xs = Inr as \<Longrightarrow> js_map f ys = Inr bs \<Longrightarrow> js_map f (xs @ ys) = Inr (as @ bs)"
  by (induction xs arbitrary: as) (auto split: sum.splits)

lemma js_map_mem:
  "js_map f xs = Inr ys \<Longrightarrow> x \<in> set xs \<Longrightarrow> \<exists>y \<in> set ys. f x = Inr y"
  by (induction xs arbitrary: ys) (auto split: sum.splits)

lemma js_map_mem_rev:
  "js_map f xs = Inr ys \<Longrightarrow> y \<in> set ys \<Longrightarrow> \<exists>x \<in> set xs. f x = Inr y"
  by (induction xs arbitrary: ys) (auto split: sum.splits)

lemma js_filter_Inr:
  "js_filter p xs = Inr ys \<Longrightarrow>
     (\<forall>x \<in> set xs. \<exists>b. p x = Inr b) \<and> ys = filter (\<lambda>x. p x = Inr True) xs"
  by (induction xs arbitrary: ys) (auto split: sum.splits if_splits)

lemma js_filter_total:
  "(\<And>x. x \<in> set xs \<Longrightarrow> \<exists>b. p x = Inr b) \<Longrightarrow> \<exists>ys. js_filter p xs = Inr ys"
  by (induction xs) (fastforce split: sum.splits)+

lemma js_filter_Inl:
  "js_filter p xs = Inl e \<Longrightarrow> \<exists>x \<in> set xs. p x = Inl e"
  by (induction xs) (auto split: sum.splits)

subsection \<open>Signatures\<close>

lemma endpointId_Inl: "endpointId x = Inl e \<longleftrightarrow> x = Null \<and> e = TypeError"
  by (cases x) auto

lemma linkSig_Inl: "linkSig l = Inl e \<longleftrightarrow> nullEndpoint l \<and> e = TypeError"
  by (auto simp: linkSig_def nullEndpoint_def endpointId_Inl split: sum.splits)

lemma linkSig_total: "\<not> nullEndpoint l \<Longrightarrow> \<exists>sg. linkSig l = Inr sg"
  using linkSig_Inl[of l] by (cases "linkSig l") auto

lemma linkSig_Inr_not_null: "linkSig l = Inr sg \<Longrightarrow> \<not> nullEndpoint l"
  using linkSig_Inl[of l TypeError] by auto

lemma linkSig_of_triple: "linkTriple a = linkTriple b \<Longrightarrow> linkSig a = linkSig b"
  by (auto simp: linkTriple_def linkSig_def split: sum.splits)

subsection \<open>The new nodes and the new links of a merge\<close>

lemma length_initPositions: "length (initPositions r k xs) = length xs"
  by (induction xs arbitrary: k) auto

lemma ids_initPositions: "map node_id (initPositions r k xs) = map node_id xs"
  by (induction xs arbitrary: k) auto

lemma initPositions_Nil_iff: "initPositions r k xs = [] \<longleftrightarrow> xs = []"
  by (cases xs) auto

lemma initPositions_mem:
  "m \<in> set (initPositions r k xs) \<Longrightarrow>
     \<exists>n \<in> set xs. \<exists>a b. m = n\<lparr>node_x := Some a, node_y := Some b\<rparr>"
  by (induction xs arbitrary: k) auto

lemma uniqueNewNodes_map_Some:
  "uniqueNewNodes g (map Some ns) = Inr (filter (\<lambda>n. node_id n \<notin> set (map node_id (nodes g))) ns)"
  by (induction ns) auto

lemma uniqueNewNodes_Inr_no_None: "uniqueNewNodes g ns = Inr r \<Longrightarrow> None \<notin> set ns"
  by (induction g ns arbitrary: r rule: uniqueNewNodes.induct) (auto split: sum.splits)

lemma uniqueNewNodes_Inl: "uniqueNewNodes g ns = Inl e \<Longrightarrow> None \<in> set ns \<and> e = TypeError"
  by (induction g ns rule: uniqueNewNodes.induct) (auto split: sum.splits)

lemma uniqueNewNodes_Inr:
  assumes "uniqueNewNodes g ns = Inr r"
  obtains ns0 where "ns = map Some ns0"
    and "r = filter (\<lambda>n. node_id n \<notin> set (map node_id (nodes g))) ns0"
proof -
  from uniqueNewNodes_Inr_no_None[OF assms] obtain ns0 where n: "ns = map Some ns0"
    using no_None_map_Some by blast
  with assms have "r = filter (\<lambda>n. node_id n \<notin> set (map node_id (nodes g))) ns0"
    by (simp add: uniqueNewNodes_map_Some)
  with n show ?thesis using that by blast
qed

text \<open>On links without a \<open>null\<close> endpoint the new links are the result of a filter.\<close>

lemma newLinksAgainst_map_Some:
  "\<forall>l \<in> set ls. \<not> nullEndpoint l \<Longrightarrow>
     newLinksAgainst sigs (map Some ls)
       = Inr (filter (\<lambda>l. \<exists>sg. linkSig l = Inr sg \<and> sg \<notin> set sigs) ls)"
proof (induction ls)
  case Nil
  then show ?case by simp
next
  case (Cons l ls)
  then obtain sg where "linkSig l = Inr sg" using linkSig_total[of l] by auto
  then show ?case using Cons by simp
qed

lemma newLinksAgainst_Inr_no_None:
  "newLinksAgainst sigs ls = Inr r \<Longrightarrow>
     None \<notin> set ls \<and> (\<forall>l. Some l \<in> set ls \<longrightarrow> \<not> nullEndpoint l)"
  by (induction sigs ls arbitrary: r rule: newLinksAgainst.induct)
     (auto split: sum.splits dest: linkSig_Inr_not_null)

lemma newLinksAgainst_Inl:
  "newLinksAgainst sigs ls = Inl e \<Longrightarrow>
     (None \<in> set ls \<or> (\<exists>l. Some l \<in> set ls \<and> nullEndpoint l)) \<and> e = TypeError"
  by (induction sigs ls rule: newLinksAgainst.induct)
     (auto split: sum.splits simp: linkSig_Inl)

lemma newLinksAgainst_Inr:
  assumes "newLinksAgainst sigs ls = Inr r"
  obtains ls0 where "ls = map Some ls0" and "\<forall>l \<in> set ls0. \<not> nullEndpoint l"
    and "r = filter (\<lambda>l. \<exists>sg. linkSig l = Inr sg \<and> sg \<notin> set sigs) ls0"
proof -
  from newLinksAgainst_Inr_no_None[OF assms] obtain ls0 where
    l: "ls = map Some ls0" using no_None_map_Some by blast
  with newLinksAgainst_Inr_no_None[OF assms] have n: "\<forall>l \<in> set ls0. \<not> nullEndpoint l" by auto
  with assms l have "r = filter (\<lambda>l. \<exists>sg. linkSig l = Inr sg \<and> sg \<notin> set sigs) ls0"
    by (simp add: newLinksAgainst_map_Some)
  with l n show ?thesis using that by blast
qed

lemma existingLinkSigs_Inr:
  "existingLinkSigs g = Inr sigs \<Longrightarrow>
     (\<forall>l \<in> set (links g). \<not> nullEndpoint l \<and> (\<exists>sg \<in> set sigs. linkSig l = Inr sg))
     \<and> (\<forall>sg \<in> set sigs. \<exists>l \<in> set (links g). linkSig l = Inr sg)"
  unfolding existingLinkSigs_def
  by (meson js_map_mem js_map_mem_rev linkSig_Inr_not_null)

lemma existingLinkSigs_total:
  "\<forall>l \<in> set (links g). \<not> nullEndpoint l \<Longrightarrow> \<exists>sigs. existingLinkSigs g = Inr sigs"
  unfolding existingLinkSigs_def by (rule js_map_total) (simp add: linkSig_total)

text \<open>What a merge that returns has done.\<close>

lemma merge_Inr:
  assumes "mergeGraphData r g (Array ns) ls = Inr (g', c)"
  obtains nn ul where "uniqueNewNodes g ns = Inr nn"
    and "uniqueNewLinks g (safeLinks ls) = Inr ul"
    and "nodes g' = nodes g @ initPositions r 0 nn"
    and "links g' = links g @ ul"
proof -
  from assms obtain nn where nn: "uniqueNewNodes g ns = Inr nn"
    by (cases "uniqueNewNodes g ns") (auto simp: mergeGraphData_def)
  from assms nn obtain ul where ul: "uniqueNewLinks g (safeLinks ls) = Inr ul"
    by (cases "uniqueNewLinks g (safeLinks ls)") (auto simp: mergeGraphData_def)
  from assms nn ul have "nodes g' = nodes g @ initPositions r 0 nn" "links g' = links g @ ul"
    by (auto simp: mergeGraphData_def Let_def initPositions_Nil_iff split: if_splits)
  with nn ul show ?thesis using that by blast
qed

lemma uniqueNewLinks_Inr:
  assumes "uniqueNewLinks g ls = Inr ul"
  obtains sigs ls0 where "existingLinkSigs g = Inr sigs" and "ls = map Some ls0"
    and "\<forall>l \<in> set ls0. \<not> nullEndpoint l"
    and "ul = filter (\<lambda>l. \<exists>sg. linkSig l = Inr sg \<and> sg \<notin> set sigs) ls0"
proof -
  from assms obtain sigs where s: "existingLinkSigs g = Inr sigs"
    by (cases "existingLinkSigs g") (auto simp: uniqueNewLinks_def)
  with assms have "newLinksAgainst sigs ls = Inr ul" by (simp add: uniqueNewLinks_def)
  from newLinksAgainst_Inr[OF this] s show ?thesis using that by blast
qed

lemma merge_node_ids:
  assumes "mergeGraphData r g (Array ns) ls = Inr (g', c)"
  shows "set (map node_id (nodes g'))
           = set (map node_id (nodes g)) \<union> {node_id n |n. Some n \<in> set ns}"
proof -
  from merge_Inr[OF assms] obtain nn where nn: "uniqueNewNodes g ns = Inr nn"
    and n: "nodes g' = nodes g @ initPositions r 0 nn" by blast
  from uniqueNewNodes_Inr[OF nn] obtain ns0 where ns0: "ns = map Some ns0"
    and f: "nn = filter (\<lambda>n. node_id n \<notin> set (map node_id (nodes g))) ns0" by blast
  have "{node_id n |n. Some n \<in> set ns} = set (map node_id ns0)" using ns0 by auto
  moreover have "set (map node_id nn) = set (map node_id ns0) - set (map node_id (nodes g))"
    using f by auto
  ultimately show ?thesis using n by (auto simp: ids_initPositions)
qed

lemma endpointIn_mono:
  "set (map node_id ns) \<subseteq> set (map node_id ns') \<Longrightarrow> endpointIn ns x \<Longrightarrow> endpointIn ns' x"
  by (auto simp: endpointIn_def split: sum.splits option.splits)

lemma resolves_mono:
  "set (map node_id ns) \<subseteq> set (map node_id ns') \<Longrightarrow> resolves ns l \<Longrightarrow> resolves ns' l"
  unfolding resolves_def using endpointIn_mono by blast

section \<open>Referential integrity of the canonical graph\<close>

text \<open>
  C1, as stated, fails. On the scenario of the specification (the node \<open>UN\<close> with an
  \<open>org:memberOf\<close> link to \<open>SecurityCouncil\<close>, which is no node), the merge adds the node and
  the synthesized type link, and it also adds the dangling \<open>org:memberOf\<close> link: the
  canonical graph then has a link whose target resolves to no node.
\<close>

theorem C1_dangling_link_kept:
  "mergeGraphData rnd_half seedGraph (Array (fst unBatch)) (Array (snd unBatch)) = Inr (unMerged, True)
   \<and> unMemberOf\<lparr>isOntologyLink := Some False\<rparr> \<in> set (links unMerged)
   \<and> endpointId (target unMemberOf) = Inr (Some ''SecurityCouncil'')
   \<and> ''SecurityCouncil'' \<notin> set (map node_id (nodes unMerged))
   \<and> \<not> noDangling unMerged"
  by (simp add: ev)

text \<open>
  C1, amended. \<open>mergeGraphData\<close> makes no endpoint check: the links after a merge are the
  previous links followed by every candidate link whose signature is new. So a merge into
  a graph without dangling links gives a graph without dangling links exactly when every
  accepted candidate link resolves in the post-merge node set.
\<close>

theorem C1_no_dangling_iff:
  assumes "mergeGraphData r g (Array ns) ls = Inr (g', c)" and "noDangling g"
  shows "\<exists>ul. uniqueNewLinks g (safeLinks ls) = Inr ul
     \<and> links g' = links g @ ul
     \<and> (noDangling g' \<longleftrightarrow> list_all (resolves (nodes g')) ul)"
proof -
  from merge_Inr[OF assms(1)] obtain ul where
    ul: "uniqueNewLinks g (safeLinks ls) = Inr ul" and l: "links g' = links g @ ul" by blast
  have sub: "set (map node_id (nodes g)) \<subseteq> set (map node_id (nodes g'))"
    using merge_node_ids[OF assms(1)] by simp
  have old: "list_all (resolves (nodes g')) (links g)"
    using assms(2) resolves_mono[OF sub] by (auto simp: noDangling_def list_all_iff)
  have "noDangling g' \<longleftrightarrow> list_all (resolves (nodes g')) ul"
    using old l by (simp add: noDangling_def)
  with ul l show ?thesis by blast
qed

theorem C1_no_dangling_iff_witness:
  "mergeGraphData rnd_half seedGraph (Array [Some unNode]) (Array [Some unType]) = Inr (unTyped, True)
   \<and> noDangling seedGraph \<and> noDangling unTyped
   \<and> uniqueNewLinks seedGraph (safeLinks (Array [Some unType])) = Inr [unType]
   \<and> list_all (resolves (nodes unTyped)) [unType]"
proof -
  have h: "mergeGraphData rnd_half seedGraph (Array [Some unNode]) (Array [Some unType])
             = Inr (unTyped, True)"
    by (simp add: ev)
  have s: "noDangling seedGraph" by (simp add: ev)
  have t: "noDangling unTyped" by (simp add: ev)
  have u: "uniqueNewLinks seedGraph (safeLinks (Array [Some unType])) = Inr [unType]"
    by (simp add: ev)
  show ?thesis using C1_no_dangling_iff[OF h s] h s t u by simp
qed

section \<open>Idempotence of the merge\<close>

lemma ids_of_candidates:
  "{node_id n |n. Some n \<in> set xs} = {i. Some i \<in> set (map (map_option node_id) xs)}"
proof (induction xs)
  case Nil
  then show ?case by simp
next
  case (Cons x xs)
  have "{node_id n |n. Some n \<in> set (x # xs)}
          = (case x of None \<Rightarrow> {} | Some n \<Rightarrow> {node_id n}) \<union> {node_id n |n. Some n \<in> set xs}"
    by (cases x) auto
  moreover have "{i. Some i \<in> set (map (map_option node_id) (x # xs))}
          = (case x of None \<Rightarrow> {} | Some n \<Rightarrow> {node_id n})
            \<union> {i. Some i \<in> set (map (map_option node_id) xs)}"
    by (cases x) auto
  ultimately show ?case using Cons.IH by simp
qed

lemma uniqueNewNodes_known:
  "None \<notin> set ns \<Longrightarrow> \<forall>n. Some n \<in> set ns \<longrightarrow> node_id n \<in> set (map node_id (nodes g))
     \<Longrightarrow> uniqueNewNodes g ns = Inr []"
  by (induction g ns rule: uniqueNewNodes.induct) auto

lemma newLinksAgainst_known:
  "None \<notin> set ls \<Longrightarrow> \<forall>l. Some l \<in> set ls \<longrightarrow> (\<exists>sg \<in> set sigs. linkSig l = Inr sg)
     \<Longrightarrow> newLinksAgainst sigs ls = Inr []"
  by (induction sigs ls rule: newLinksAgainst.induct) auto

text \<open>
  C3. Merging a batch a second time, after any first merge of it, leaves the graph as it
  is and reports no change; the second merge finds no new node and no new link. The second
  batch may be the first one with the positions that the first merge wrote into its nodes:
  only the ids of the nodes matter. The link list may be any value, array or not.
\<close>

theorem C3_merge_idempotent:
  assumes "mergeGraphData r1 g (Array ns) ls = Inr (g1, c1)"
    and "map (map_option node_id) ns' = map (map_option node_id) ns"
  shows "mergeGraphData r2 g1 (Array ns') ls = Inr (g1, False)
         \<and> uniqueNewNodes g1 ns' = Inr [] \<and> uniqueNewLinks g1 (safeLinks ls) = Inr []"
proof -
  from merge_Inr[OF assms(1)] obtain nn ul where
    nn: "uniqueNewNodes g ns = Inr nn" and ul: "uniqueNewLinks g (safeLinks ls) = Inr ul"
    and l1: "links g1 = links g @ ul" by blast
  have "None \<notin> set (map (map_option node_id) ns)"
    using uniqueNewNodes_Inr_no_None[OF nn] by auto
  then have nn': "None \<notin> set ns'"
    unfolding assms(2)[symmetric] by auto
  have "{node_id n |n. Some n \<in> set ns'} = {node_id n |n. Some n \<in> set ns}"
    using assms(2) by (simp add: ids_of_candidates)
  then have "\<forall>n. Some n \<in> set ns' \<longrightarrow> node_id n \<in> set (map node_id (nodes g1))"
    using merge_node_ids[OF assms(1)] by blast
  then have n: "uniqueNewNodes g1 ns' = Inr []"
    using nn' by (rule uniqueNewNodes_known[rotated])
  from uniqueNewLinks_Inr[OF ul] obtain sigs ls0 where
    sigs: "existingLinkSigs g = Inr sigs" and ls0: "safeLinks ls = map Some ls0"
    and nonull: "\<forall>l \<in> set ls0. \<not> nullEndpoint l"
    and ulf: "ul = filter (\<lambda>l. \<exists>sg. linkSig l = Inr sg \<and> sg \<notin> set sigs) ls0" by blast
  have "\<forall>l \<in> set ul. \<exists>sg. linkSig l = Inr sg" using ulf by auto
  then obtain sigs' where sigs': "js_map linkSig ul = Inr sigs'"
    using js_map_total[of ul linkSig] by blast
  have e1: "existingLinkSigs g1 = Inr (sigs @ sigs')"
    using sigs sigs' unfolding existingLinkSigs_def l1 by (rule js_map_append)
  have covered: "\<exists>sg \<in> set (sigs @ sigs'). linkSig l = Inr sg" if "l \<in> set ls0" for l
  proof -
    from that nonull obtain sg where sg: "linkSig l = Inr sg" using linkSig_total by blast
    show ?thesis
    proof (cases "sg \<in> set sigs")
      case True
      with sg show ?thesis by auto
    next
      case False
      with sg that have "l \<in> set ul" by (simp add: ulf)
      from js_map_mem[OF sigs' this] sg show ?thesis by auto
    qed
  qed
  have "newLinksAgainst (sigs @ sigs') (safeLinks ls) = Inr []"
    by (rule newLinksAgainst_known) (use ls0 covered in auto)
  then have l: "uniqueNewLinks g1 (safeLinks ls) = Inr []"
    using e1 by (simp add: uniqueNewLinks_def)
  show ?thesis using n l by (simp add: mergeGraphData_def)
qed

theorem C3_merge_idempotent_witness:
  "mergeGraphData rnd_half seedGraph (Array (fst unBatch)) (Array (snd unBatch)) = Inr (unMerged, True)
   \<and> map (map_option node_id) [Some (placed unNode)] = map (map_option node_id) (fst unBatch)
   \<and> mergeGraphData rnd_half unMerged (Array [Some (placed unNode)]) (Array (snd unBatch))
        = Inr (unMerged, False)
   \<and> uniqueNewNodes unMerged [Some (placed unNode)] = Inr []
   \<and> uniqueNewLinks unMerged (safeLinks (Array (snd unBatch))) = Inr []"
proof -
  have h: "mergeGraphData rnd_half seedGraph (Array (fst unBatch)) (Array (snd unBatch))
             = Inr (unMerged, True)"
    by (simp add: ev)
  have i: "map (map_option node_id) [Some (placed unNode)] = map (map_option node_id) (fst unBatch)"
    by (simp add: ev)
  show ?thesis using C3_merge_idempotent[OF h i, of rnd_half] h i by simp
qed

section \<open>The filtered view\<close>

lemma linkVisible_Inl: "linkVisible shown l = Inl e \<longleftrightarrow> nullEndpoint l \<and> e = TypeError"
  by (auto simp: linkVisible_def nullEndpoint_def endpointId_Inl Let_def split: sum.splits)

lemma linkVisible_True:
  "linkVisible shown l = Inr True \<longleftrightarrow>
     (\<exists>n \<in> set shown. endpointId (source l) = Inr (Some (node_id n)))
     \<and> (\<exists>n \<in> set shown. endpointId (target l) = Inr (Some (node_id n)))"
  by (auto simp: linkVisible_def Let_def find_Some_ex split: sum.splits)

text \<open>A merge that returns leaves no link with a \<open>null\<close> endpoint in the graph.\<close>

lemma merge_no_null_endpoint:
  assumes "mergeGraphData r g (Array ns) ls = Inr (g', c)"
  shows "\<forall>l \<in> set (links g'). \<not> nullEndpoint l"
proof -
  from merge_Inr[OF assms] obtain ul where
    ul: "uniqueNewLinks g (safeLinks ls) = Inr ul" and l: "links g' = links g @ ul" by blast
  from uniqueNewLinks_Inr[OF ul] obtain sigs ls0 where
    sigs: "existingLinkSigs g = Inr sigs" and "\<forall>l \<in> set ls0. \<not> nullEndpoint l"
    and "ul = filter (\<lambda>l. \<exists>sg. linkSig l = Inr sg \<and> sg \<notin> set sigs) ls0" by blast
  then have "\<forall>l \<in> set ul. \<not> nullEndpoint l" by auto
  moreover have "\<forall>l \<in> set (links g). \<not> nullEndpoint l"
    using existingLinkSigs_Inr[OF sigs] by blast
  ultimately show ?thesis using l by auto
qed

text \<open>
  C5. For every graph and every filter state, a link is in the filtered links exactly when
  it is a link of the graph and both its endpoint ids are ids of filtered nodes. So no link
  of the view has an endpoint that was filtered out. The filtered links are computed for
  every graph without a link that has a \<open>null\<close> endpoint (and a merge lets no such link
  in); on a graph with such a link the computation raises.
\<close>

theorem C5_view_soundness:
  "((\<forall>k \<in> set (links g). \<not> nullEndpoint k) \<longrightarrow> (\<exists>fl. filteredLinks g f = Inr fl))
   \<and> (filteredLinks g f = Inr fl \<longrightarrow>
        (l \<in> set fl \<longleftrightarrow>
           l \<in> set (links g)
           \<and> (\<exists>n \<in> set (filteredNodes g f). endpointId (source l) = Inr (Some (node_id n)))
           \<and> (\<exists>n \<in> set (filteredNodes g f). endpointId (target l) = Inr (Some (node_id n)))))"
proof -
  have 1: "\<exists>fl. filteredLinks g f = Inr fl" if "\<forall>k \<in> set (links g). \<not> nullEndpoint k"
    unfolding filteredLinks_def
  proof (rule js_filter_total)
    fix x assume "x \<in> set (links g)"
    with that have "\<not> nullEndpoint x" by blast
    then show "\<exists>b. linkVisible (filteredNodes g f) x = Inr b"
      using linkVisible_Inl[of "filteredNodes g f" x] 
      by (cases "linkVisible (filteredNodes g f) x") auto
  qed
  have 2: "l \<in> set fl \<longleftrightarrow>
           l \<in> set (links g)
           \<and> (\<exists>n \<in> set (filteredNodes g f). endpointId (source l) = Inr (Some (node_id n)))
           \<and> (\<exists>n \<in> set (filteredNodes g f). endpointId (target l) = Inr (Some (node_id n)))"
    if "filteredLinks g f = Inr fl"
  proof -
    from that have "fl = filter (\<lambda>x. linkVisible (filteredNodes g f) x = Inr True) (links g)"
      unfolding filteredLinks_def using js_filter_Inr by blast
    then show ?thesis by (simp add: linkVisible_True)
  qed
  show ?thesis using 1 2 by blast
qed

theorem C5_view_soundness_witness:
  "filteredLinks personOrgGraph allFilter = Inr [aliceMemberOf]
   \<and> aliceMemberOf \<in> set (links personOrgGraph)
   \<and> placed acmeNode \<notin> set (filteredNodes personOrgGraph personFilter)
   \<and> filteredLinks personOrgGraph personFilter = Inr []"
proof -
  have a: "filteredLinks personOrgGraph allFilter = Inr [aliceMemberOf]" by (simp add: ev)
  have p: "filteredLinks personOrgGraph personFilter = Inr []" by (simp add: ev)
  have m: "aliceMemberOf \<in> set (links personOrgGraph)"
          "placed acmeNode \<notin> set (filteredNodes personOrgGraph personFilter)"
    by (simp_all add: ev)
  show ?thesis
    using C5_view_soundness[of personOrgGraph allFilter "[aliceMemberOf]" aliceMemberOf]
          C5_view_soundness[of personOrgGraph personFilter "[]" aliceMemberOf] a p m
    by simp
qed

lemma NodeType_value_inj: "NodeType_value a = NodeType_value b \<longleftrightarrow> a = b"
  by (cases a; cases b) simp_all

lemma NodeType_value_Class: "NodeType_value k = ''Class'' \<longleftrightarrow> k = Class"
  by (cases k) simp_all

text \<open>
  C2, as stated, fails. With the type filter set to Person and the ontology layer shown,
  the graph of one Person node linked to one Organization node keeps the Person node only:
  the pre-seeded Person class node is in the graph and is not in the filtered view.
\<close>

theorem C2_class_nodes_filtered_out:
  "mkClass ''Person'' \<in> set (nodes personOrgGraph)
   \<and> showOntology personFilter
   \<and> filteredNodes personOrgGraph personFilter = [placed aliceNode]
   \<and> mkClass ''Person'' \<notin> set (filteredNodes personOrgGraph personFilter)"
  by (simp add: ev)

text \<open>
  C2, amended. When the type filter is set to a kind, the filtered view keeps exactly the
  nodes of that kind, in their order; class nodes are not exempt, and when the kind is
  Class they are kept only while the ontology layer is shown.
\<close>

theorem C2_type_filter:
  assumes "nodeTypeFilter f = Some k"
  shows "filteredNodes g f =
           filter (\<lambda>n. node_type n = Some (NodeType_value k) \<and> (k = Class \<longrightarrow> showOntology f))
             (nodes g)"
  unfolding filteredNodes_def using assms
  by (intro filter_cong) (auto simp: NodeType_value_inj NodeType_value_Class)

theorem C2_type_filter_witness:
  "nodeTypeFilter personFilter = Some Person
   \<and> filteredNodes personOrgGraph personFilter = [placed aliceNode]
   \<and> filteredLinks personOrgGraph personFilter = Inr []"
proof -
  have h: "nodeTypeFilter personFilter = Some Person" by (simp add: ev)
  have "filter (\<lambda>n. node_type n = Some (NodeType_value Person)
                     \<and> (Person = Class \<longrightarrow> showOntology personFilter))
          (nodes personOrgGraph) = [placed aliceNode]"
    by (simp add: ev)
  then have n: "filteredNodes personOrgGraph personFilter = [placed aliceNode]"
    using C2_type_filter[OF h, of personOrgGraph] by simp
  have l: "filteredLinks personOrgGraph personFilter = Inr []"
    unfolding filteredLinks_def n by (simp add: ev)
  show ?thesis using h n l by simp
qed

section \<open>Type links\<close>

lemma typeLinked_append: "typeLinked ls i \<Longrightarrow> typeLinked (ls @ ys) i"
  by (auto simp: typeLinked_def list_ex_iff)

lemma typeLinked_typeLink: "typeLinked (ls @ [Some (typeLink n t)]) (node_id n)"
  by (simp add: typeLinked_def typeLink_def list_ex_iff)

lemma typeLinked_iff:
  "typeLinked ls i \<longleftrightarrow> (\<exists>l. Some l \<in> set ls \<and> source l = Ref i \<and> predicate l = ''rdf:type'')"
  by (auto simp: typeLinked_def list_ex_iff split: option.splits)

lemma hasTypeLink_True: "hasTypeLink ls i = Inr True \<Longrightarrow> typeLinked ls i"
  by (induction ls i rule: hasTypeLink.induct)
     (auto simp: typeLinked_def split: if_splits)

lemma extractLinking_keeps:
  "extractLinking ns ls = Inr r \<Longrightarrow> typeLinked ls i \<Longrightarrow> typeLinked r i"
  by (induction ns ls arbitrary: r rule: extractLinking.induct)
     (auto simp: typeLinked_append split: if_splits sum.splits option.splits)

lemma shaclLinking_keeps:
  "shaclLinking ns ls = Inr r \<Longrightarrow> typeLinked ls i \<Longrightarrow> typeLinked r i"
  by (induction ns ls arbitrary: r rule: shaclLinking.induct)
     (auto simp: typeLinked_append split: if_splits sum.splits)

lemma extractLinking_typed:
  "extractLinking ns ls = Inr r \<Longrightarrow> Some n \<in> set ns \<Longrightarrow> node_type n = Some t
     \<Longrightarrow> t \<noteq> NodeType_value Class \<Longrightarrow> t \<noteq> []
     \<Longrightarrow> typeLinked r (node_id n)"
proof (induction ns ls arbitrary: r rule: extractLinking.induct)
  case (1 ls)
  then show ?case by simp
next
  case (2 rest ls)
  then show ?case by simp
next
  case (3 node rest ls)
  show ?case
  proof (cases "n = node")
    case True
    from "3.prems"(1) True "3.prems"(3,4,5) obtain found where
      f: "hasTypeLink ls (node_id n) = Inr found"
      by (cases "hasTypeLink ls (node_id n)") auto
    show ?thesis
    proof (cases found)
      case True
      with f have "typeLinked ls (node_id n)" by (simp add: hasTypeLink_True)
      moreover from "3.prems"(1) \<open>n = node\<close> "3.prems"(3,4,5) f True
      have "extractLinking rest ls = Inr r" by simp
      ultimately show ?thesis by (rule extractLinking_keeps[rotated])
    next
      case False
      with "3.prems"(1) \<open>n = node\<close> "3.prems"(3,4,5) f
      have "extractLinking rest (ls @ [Some (typeLink n (Ref t))]) = Inr r"
        by simp
      then show ?thesis using typeLinked_typeLink by (rule extractLinking_keeps)
    qed
  next
    case False
    then have "Some n \<in> set rest" using "3.prems"(2) by simp
    then show ?thesis
      using "3.IH" "3.prems"(1,3,4,5)
      by (auto split: if_splits sum.splits option.splits)
  qed
qed

lemma shaclLinking_typed:
  "shaclLinking ns ls = Inr r \<Longrightarrow> Some n \<in> set ns
     \<Longrightarrow> node_type n \<noteq> Some (NodeType_value Class)
     \<Longrightarrow> typeLinked r (node_id n)"
proof (induction ns ls arbitrary: r rule: shaclLinking.induct)
  case (1 ls)
  then show ?case by simp
next
  case (2 rest ls)
  then show ?case by simp
next
  case (3 node rest ls)
  show ?case
  proof (cases "n = node")
    case True
    from "3.prems"(1) True "3.prems"(3) obtain found where
      f: "hasTypeLink ls (node_id n) = Inr found"
      by (cases "hasTypeLink ls (node_id n)") auto
    show ?thesis
    proof (cases found)
      case True
      with f have "typeLinked ls (node_id n)" by (simp add: hasTypeLink_True)
      moreover from "3.prems"(1) \<open>n = node\<close> "3.prems"(3) f True
      have "shaclLinking rest ls = Inr r" by simp
      ultimately show ?thesis by (rule shaclLinking_keeps[rotated])
    next
      case False
      with "3.prems"(1) \<open>n = node\<close> "3.prems"(3) f
      have "shaclLinking rest (ls @ [Some (typeLink n (typeTarget n))]) = Inr r"
        by simp
      then show ?thesis using typeLinked_typeLink by (rule shaclLinking_keeps)
    qed
  next
    case False
    then have "Some n \<in> set rest" using "3.prems"(2) by simp
    then show ?thesis
      using "3.IH" "3.prems"(1,3)
      by (auto split: if_splits sum.splits)
  qed
qed

text \<open>Where the links of a linked batch come from.\<close>

lemma extractLinking_source:
  "extractLinking ns ls = Inr r \<Longrightarrow> y \<in> set r \<Longrightarrow>
     y \<in> set ls \<or> (\<exists>n t. Some n \<in> set ns \<and> node_type n = Some t
                        \<and> t \<noteq> NodeType_value Class \<and> t \<noteq> []
                        \<and> y = Some (kindLink n t))"
  by (induction ns ls arbitrary: r rule: extractLinking.induct)
     (fastforce simp: kindLink_def split: if_splits sum.splits option.splits)+

lemma shaclLinking_source:
  "shaclLinking ns ls = Inr r \<Longrightarrow> y \<in> set r \<Longrightarrow>
     y \<in> set ls \<or> (\<exists>n. Some n \<in> set ns \<and> node_type n \<noteq> Some (NodeType_value Class)
                      \<and> y = Some (typeLink n (typeTarget n)))"
  by (induction ns ls arbitrary: r rule: shaclLinking.induct)
     (fastforce split: if_splits sum.splits)+

lemma markOntologyLink_kindLink:
  "markOntologyLink cs (Some (kindLink n t)) = Inr (Some (kindLink n t))"
  by (simp add: kindLink_def typeLink_def)

lemma markOntologyLink_typeLinked:
  "js_map (markOntologyLink cs) xs = Inr ys \<Longrightarrow> typeLinked ys i = typeLinked xs i"
proof (induction xs arbitrary: ys)
  case Nil
  then show ?case by simp
next
  case (Cons x xs)
  then obtain y ys' where y: "markOntologyLink cs x = Inr y" and ys': "js_map (markOntologyLink cs) xs = Inr ys'"
    and ys: "ys = y # ys'" by (auto split: sum.splits)
  from y obtain l where "x = Some l" by (cases x) auto
  with y have "(case y of Some l \<Rightarrow> source l = Ref i \<and> predicate l = ''rdf:type'' | None \<Rightarrow> False)
             = (case x of Some l \<Rightarrow> source l = Ref i \<and> predicate l = ''rdf:type'' | None \<Rightarrow> False)"
    by auto
  then show ?case using Cons.IH[OF ys'] ys by (simp add: typeLinked_def)
qed

lemma merge_links_source:
  assumes "mergeGraphData r g (Array ns) ls = Inr (g', c)"
  shows "set (links g') \<subseteq> set (links g) \<union> {l. Some l \<in> set (safeLinks ls)}"
proof -
  from merge_Inr[OF assms] obtain ul where
    ul: "uniqueNewLinks g (safeLinks ls) = Inr ul" and l: "links g' = links g @ ul" by blast
  from uniqueNewLinks_Inr[OF ul] obtain sigs ls0 where
    "safeLinks ls = map Some ls0"
    "ul = filter (\<lambda>l. \<exists>sg. linkSig l = Inr sg \<and> sg \<notin> set sigs) ls0" by blast
  then show ?thesis using l by auto
qed

text \<open>
  C4, as stated, fails. \<open>mergeGraphData\<close> synthesizes no link. Merging the Person node
  \<open>Alice\<close> without a type link (as the merge of a generated ontology layer may) leaves her
  without one although the class node \<open>Person\<close> is in the graph; and a later merge of an
  extracted batch about \<open>Bob\<close> gives Bob his type link and leaves Alice as she was.
\<close>

theorem C4_no_backfill_in_merge:
  "mergeGraphData rnd_half seedGraph (Array [Some aliceNode]) (Array []) = Inr (aliceUntyped, True)
   \<and> mkClass ''Person'' \<in> set (nodes aliceUntyped)
   \<and> placed aliceNode \<in> set (nodes aliceUntyped)
   \<and> \<not> typed aliceUntyped (placed aliceNode)
   \<and> mergeGraphData rnd_half aliceUntyped (Array (fst bobBatch)) (Array (snd bobBatch))
        = Inr (aliceBob, True)
   \<and> placed aliceNode \<in> set (nodes aliceBob)
   \<and> \<not> typed aliceBob (placed aliceNode)"
  by (simp add: ev)

text \<open>
  C4, amended. The back-filling is done by \<open>extractKnowledgeGraph\<close> and by
  \<open>performShaclScan\<close> on the batch they return, before any merge. In a batch that
  \<open>extractKnowledgeGraph\<close> returns, every node that has a kind (a non-empty type) other than
  Class has, among the links of the batch, a link from its id with the predicate
  \<open>rdf:type\<close>, and the links of the batch are the links of the response (with the ontology
  flag set anew) and, beyond them, only type links from such a node toward its own kind; a
  node without a type gets none. In a batch that \<open>performShaclScan\<close> returns, every node
  whose kind is not Class, a node without a type too, has such a link, and the added links
  go from such a node toward its \<open>type\<close> property. A merge adds no link of its own: every
  link of the graph after a merge is a previous link or a candidate link.
\<close>

theorem C4_batch_backfill:
  "(\<forall>n t. Some n \<in> set (fst (extractKnowledgeGraph_result ns ls cs))
             \<and> node_type n = Some t \<and> t \<noteq> NodeType_value Class \<and> t \<noteq> []
        \<longrightarrow> typeLinked (snd (extractKnowledgeGraph_result ns ls cs)) (node_id n))
   \<and> (\<forall>n. Some n \<in> set (fst (performShaclScan_result ns ls))
             \<and> node_type n \<noteq> Some (NodeType_value Class)
        \<longrightarrow> typeLinked (snd (performShaclScan_result ns ls)) (node_id n))
   \<and> (\<forall>y \<in> set (snd (extractKnowledgeGraph_result ns ls cs)).
         (\<exists>x \<in> set ls. markOntologyLink cs x = Inr y)
         \<or> (\<exists>n t. Some n \<in> set ns \<and> node_type n = Some t
                  \<and> t \<noteq> NodeType_value Class \<and> t \<noteq> []
                  \<and> y = Some (kindLink n t)))
   \<and> (\<forall>y \<in> set (snd (performShaclScan_result ns ls)).
         y \<in> set ls
         \<or> (\<exists>n. Some n \<in> set ns \<and> node_type n \<noteq> Some (NodeType_value Class)
                \<and> y = Some (typeLink n (typeTarget n))))
   \<and> (mergeGraphData r g (Array ms) ks = Inr (g', c)
        \<longrightarrow> set (links g') \<subseteq> set (links g) \<union> {l. Some l \<in> set (safeLinks ks)})"
proof -
  have e1: "typeLinked (snd (extractKnowledgeGraph_result ns ls cs)) (node_id n)"
    if "Some n \<in> set (fst (extractKnowledgeGraph_result ns ls cs))"
       "node_type n = Some t" "t \<noteq> NodeType_value Class" "t \<noteq> []" for n t
  proof (cases "extractLinking ns ls")
    case (Inl e)
    with that(1) show ?thesis by (simp add: extractKnowledgeGraph_result_def)
  next
    case (Inr linked)
    show ?thesis
    proof (cases "js_map (markOntologyLink cs) linked")
      case (Inl e)
      with Inr that(1) show ?thesis by (simp add: extractKnowledgeGraph_result_def)
    next
      case marked: (Inr marked)
      with Inr that(1) have "Some n \<in> set ns" by (simp add: extractKnowledgeGraph_result_def)
      from extractLinking_typed[OF Inr this that(2,3,4)]
      have "typeLinked marked (node_id n)"
        by (simp add: markOntologyLink_typeLinked[OF marked])
      with Inr marked show ?thesis by (simp add: extractKnowledgeGraph_result_def)
    qed
  qed
  have s1: "typeLinked (snd (performShaclScan_result ns ls)) (node_id n)"
    if "Some n \<in> set (fst (performShaclScan_result ns ls))"
       "node_type n \<noteq> Some (NodeType_value Class)" for n
  proof (cases "shaclLinking ns ls")
    case (Inl e)
    with that(1) show ?thesis by (simp add: performShaclScan_result_def)
  next
    case (Inr linked)
    with that(1) have "Some n \<in> set ns" by (simp add: performShaclScan_result_def)
    from shaclLinking_typed[OF Inr this that(2)] Inr
    show ?thesis by (simp add: performShaclScan_result_def)
  qed
  have e2: "(\<exists>x \<in> set ls. markOntologyLink cs x = Inr y)
         \<or> (\<exists>n t. Some n \<in> set ns \<and> node_type n = Some t
                  \<and> t \<noteq> NodeType_value Class \<and> t \<noteq> []
                  \<and> y = Some (kindLink n t))"
    if "y \<in> set (snd (extractKnowledgeGraph_result ns ls cs))" for y
  proof (cases "extractLinking ns ls")
    case (Inl e)
    with that show ?thesis by (simp add: extractKnowledgeGraph_result_def)
  next
    case (Inr linked)
    show ?thesis
    proof (cases "js_map (markOntologyLink cs) linked")
      case (Inl e)
      with Inr that show ?thesis by (simp add: extractKnowledgeGraph_result_def)
    next
      case marked: (Inr marked)
      with Inr that have "y \<in> set marked" by (simp add: extractKnowledgeGraph_result_def)
      from js_map_mem_rev[OF marked this] obtain x where
        x: "x \<in> set linked" "markOntologyLink cs x = Inr y" by blast
      from extractLinking_source[OF Inr x(1)] show ?thesis
      proof
        assume "x \<in> set ls"
        with x(2) show ?thesis by blast
      next
        assume "\<exists>n t. Some n \<in> set ns \<and> node_type n = Some t
                   \<and> t \<noteq> NodeType_value Class \<and> t \<noteq> []
                   \<and> x = Some (kindLink n t)"
        then obtain n t where nt: "Some n \<in> set ns" "node_type n = Some t"
          "x = Some (kindLink n t)" "t \<noteq> NodeType_value Class" "t \<noteq> []" by blast
        from x(2) have "Inr y = markOntologyLink cs (Some (kindLink n t))"
          unfolding nt(3) by (rule sym)
        also have "\<dots> = Inr (Some (kindLink n t))" by (rule markOntologyLink_kindLink)
        finally have "y = Some (kindLink n t)" by (simp only: sum.inject)
        with nt show ?thesis by blast
      qed
    qed
  qed
  have s2: "y \<in> set ls
         \<or> (\<exists>n. Some n \<in> set ns \<and> node_type n \<noteq> Some (NodeType_value Class)
                \<and> y = Some (typeLink n (typeTarget n)))"
    if "y \<in> set (snd (performShaclScan_result ns ls))" for y
  proof (cases "shaclLinking ns ls")
    case (Inl e)
    with that show ?thesis by (simp add: performShaclScan_result_def)
  next
    case (Inr linked)
    with that have "y \<in> set linked" by (simp add: performShaclScan_result_def)
    from shaclLinking_source[OF Inr this] show ?thesis .
  qed
  have m: "mergeGraphData r g (Array ms) ks = Inr (g', c)
        \<longrightarrow> set (links g') \<subseteq> set (links g) \<union> {l. Some l \<in> set (safeLinks ks)}"
    using merge_links_source by blast
  show ?thesis using e1 s1 e2 s2 m by blast
qed

theorem C4_batch_backfill_witness:
  "extractKnowledgeGraph_result [Some unNode, Some stormNode, Some blankNode] [Some unMemberOf] classIds
      = ([Some unNode, Some stormNode, Some blankNode],
         [Some (unMemberOf\<lparr>isOntologyLink := Some False\<rparr>), Some unType])
   \<and> node_type unNode = Some ''Organization''
   \<and> typeLinked (snd (extractKnowledgeGraph_result [Some unNode, Some stormNode, Some blankNode]
                        [Some unMemberOf] classIds)) (node_id unNode)
   \<and> node_type stormNode = None
   \<and> \<not> typeLinked (snd (extractKnowledgeGraph_result [Some unNode, Some stormNode, Some blankNode]
                        [Some unMemberOf] classIds)) (node_id stormNode)
   \<and> node_type blankNode = Some []
   \<and> \<not> typeLinked (snd (extractKnowledgeGraph_result [Some unNode, Some stormNode, Some blankNode]
                        [Some unMemberOf] classIds)) (node_id blankNode)
   \<and> performShaclScan_result [Some unNode, Some stormNode, Some blankNode] [Some unMemberOf]
      = ([Some unNode, Some stormNode, Some blankNode],
         [Some unMemberOf, Some unType, Some (typeLink stormNode Undefined),
          Some (typeLink blankNode (Ref []))])
   \<and> typeLinked (snd (performShaclScan_result [Some unNode, Some stormNode, Some blankNode]
                        [Some unMemberOf])) (node_id stormNode)
   \<and> extractKnowledgeGraph_result [Some unNode, None] [Some unMemberOf] classIds = ([], [])
   \<and> mergeGraphData rnd_half seedGraph (Array (fst unBatch)) (Array (snd unBatch))
        = Inr (unMerged, True)
   \<and> set (links unMerged) \<subseteq> set (links seedGraph) \<union> {l. Some l \<in> set (safeLinks (Array (snd unBatch)))}"
proof -
  let ?ns = "[Some unNode, Some stormNode, Some blankNode]" and ?ls = "[Some unMemberOf]"
  have x: "extractKnowledgeGraph_result ?ns ?ls classIds
      = (?ns, [Some (unMemberOf\<lparr>isOntologyLink := Some False\<rparr>), Some unType])"
    by (simp add: ev)
  have s: "performShaclScan_result ?ns ?ls
      = (?ns, [Some unMemberOf, Some unType, Some (typeLink stormNode Undefined),
               Some (typeLink blankNode (Ref []))])"
    by (simp add: ev)
  have t: "node_type unNode = Some ''Organization''" "node_type stormNode = None"
          "node_type blankNode = Some []"
    by (simp_all add: ev)
  have n: "\<not> typeLinked (snd (extractKnowledgeGraph_result ?ns ?ls classIds)) (node_id stormNode)"
          "\<not> typeLinked (snd (extractKnowledgeGraph_result ?ns ?ls classIds)) (node_id blankNode)"
    unfolding x by (simp_all add: ev)
  have c: "extractKnowledgeGraph_result [Some unNode, None] [Some unMemberOf] classIds = ([], [])"
    by (simp add: ev)
  have m: "mergeGraphData rnd_half seedGraph (Array (fst unBatch)) (Array (snd unBatch))
        = Inr (unMerged, True)"
    by (simp add: ev)
  have i1: "Some unNode \<in> set (fst (extractKnowledgeGraph_result ?ns ?ls classIds))"
    unfolding x by simp
  have i2: "Some stormNode \<in> set (fst (performShaclScan_result ?ns ?ls))"
    unfolding s by simp
  have c1: "''Organization'' \<noteq> NodeType_value Class" "''Organization'' \<noteq> []"
           "node_type stormNode \<noteq> Some (NodeType_value Class)"
    using t by simp_all
  note inst = C4_batch_backfill[of ?ns ?ls classIds rnd_half seedGraph "fst unBatch"
                                 "Array (snd unBatch)" unMerged True]
  from inst i1 t(1) c1(1,2)
  have a: "typeLinked (snd (extractKnowledgeGraph_result ?ns ?ls classIds)) (node_id unNode)"
    by blast
  from inst i2 c1(3)
  have b: "typeLinked (snd (performShaclScan_result ?ns ?ls)) (node_id stormNode)"
    by blast
  from inst m
  have d: "set (links unMerged)
             \<subseteq> set (links seedGraph) \<union> {l. Some l \<in> set (safeLinks (Array (snd unBatch)))}"
    by blast
  show ?thesis using x s t n c m a b d by simp
qed

section \<open>Uniqueness of ids and of link triples\<close>

lemma distinct_map_Some: "distinct (map Some xs) \<longleftrightarrow> distinct xs"
  by (simp add: distinct_map)

text \<open>
  What the merge does keep: when the batch itself has no two nodes with one id and no two
  links with one triple, a merge into a graph with unique ids and triples gives such a
  graph again.
\<close>

lemma merge_unique_when_batch_unique:
  assumes m: "mergeGraphData r g (Array ns) ls = Inr (g', c)"
    and dn: "distinct (map node_id (nodes g))" "distinct (map (map_option node_id) ns)"
    and dl: "distinct (map linkTriple (links g))"
            "distinct (map (map_option linkTriple) (safeLinks ls))"
  shows "distinct (map node_id (nodes g')) \<and> distinct (map linkTriple (links g'))"
proof -
  from merge_Inr[OF m] obtain nn ul where
    nn: "uniqueNewNodes g ns = Inr nn" and ul: "uniqueNewLinks g (safeLinks ls) = Inr ul"
    and n': "nodes g' = nodes g @ initPositions r 0 nn" and l': "links g' = links g @ ul"
    by blast
  from uniqueNewNodes_Inr[OF nn] obtain ns0 where ns0: "ns = map Some ns0"
    and nnf: "nn = filter (\<lambda>n. node_id n \<notin> set (map node_id (nodes g))) ns0" by blast
  have "map (map_option node_id) ns = map Some (map node_id ns0)" by (simp add: ns0)
  with dn(2) have "distinct (map node_id ns0)" by (simp only: distinct_map_Some)
  then have a: "distinct (map node_id nn)" unfolding nnf by (rule distinct_map_filter)
  have "i \<notin> set (map node_id (nodes g))" if "i \<in> set (map node_id nn)" for i
    using that unfolding nnf by auto
  then have "set (map node_id (nodes g)) \<inter> set (map node_id nn) = {}"
    by (meson disjoint_iff)
  with a dn(1) have n: "distinct (map node_id (nodes g'))"
    by (simp add: n' ids_initPositions)
  from uniqueNewLinks_Inr[OF ul] obtain sigs ls0 where
    sigs: "existingLinkSigs g = Inr sigs" and ls0: "safeLinks ls = map Some ls0"
    and ulf: "ul = filter (\<lambda>l. \<exists>sg. linkSig l = Inr sg \<and> sg \<notin> set sigs) ls0" by blast
  have "map (map_option linkTriple) (safeLinks ls) = map Some (map linkTriple ls0)"
    by (simp add: ls0)
  with dl(2) have "distinct (map linkTriple ls0)" by (simp only: distinct_map_Some)
  then have b: "distinct (map linkTriple ul)" unfolding ulf by (rule distinct_map_filter)
  have "linkTriple k \<noteq> linkTriple l" if "k \<in> set (links g)" "l \<in> set ul" for k l
  proof
    assume "linkTriple k = linkTriple l"
    then have e: "linkSig k = linkSig l" by (rule linkSig_of_triple)
    from that(2) obtain sg where sg: "linkSig l = Inr sg" "sg \<notin> set sigs" by (auto simp: ulf)
    from existingLinkSigs_Inr[OF sigs] that(1) obtain sg' where
      "sg' \<in> set sigs" "linkSig k = Inr sg'" by blast
    with e sg show False by simp
  qed
  then have "t \<notin> set (map linkTriple (links g))" if "t \<in> set (map linkTriple ul)" for t
    using that by (metis (no_types, lifting) imageE list.set_map)
  then have "set (map linkTriple (links g)) \<inter> set (map linkTriple ul) = {}"
    by (meson disjoint_iff)
  with b dl(1) have l: "distinct (map linkTriple (links g'))" by (simp add: l')
  show ?thesis using n l by simp
qed

text \<open>
  C6 does not hold of the code. The candidates are compared with the previous graph only,
  never with one another: a batch with two nodes of the id \<open>UN\<close> and twice the same link,
  merged into the seed graph (unique ids, no links), gives a graph with two nodes of the
  id \<open>UN\<close> and two links of one triple.
\<close>

theorem C6_duplicates_within_batch:
  "mergeGraphData rnd_half seedGraph (Array [Some unNode, Some unNode2])
       (Array [Some unType, Some unType])
     = Inr (\<lparr>nodes = STANDARD_CLASSES @ [placed unNode, placed unNode2],
             links = [unType, unType]\<rparr>, True)
   \<and> distinct (map node_id (nodes seedGraph)) \<and> distinct (map linkTriple (links seedGraph))
   \<and> \<not> distinct (map node_id (STANDARD_CLASSES @ [placed unNode, placed unNode2]))
   \<and> \<not> distinct (map linkTriple [unType, unType])"
  by (simp add: ev)

section \<open>The merge only appends\<close>

text \<open>
  C7. After a merge, the previous nodes and links are the first nodes and links of the new
  graph, each unchanged in every field; looking up an id that the graph already had gives
  the node stored before (the first write wins); and every node behind the previous ones
  has an id that was not in the graph and is a node of the batch that differs from it in
  the two coordinates only, which the merge has set.
\<close>

theorem C7_merge_frame:
  assumes "mergeGraphData r g (Array ns) ls = Inr (g', c)"
  shows "take (length (nodes g)) (nodes g') = nodes g
       \<and> take (length (links g)) (links g') = links g
       \<and> (\<forall>i \<in> set (map node_id (nodes g)).
             find (\<lambda>n. node_id n = i) (nodes g') = find (\<lambda>n. node_id n = i) (nodes g))
       \<and> (\<forall>m \<in> set (drop (length (nodes g)) (nodes g')).
             node_id m \<notin> set (map node_id (nodes g))
             \<and> (\<exists>n. Some n \<in> set ns \<and> (\<exists>a b. m = n\<lparr>node_x := Some a, node_y := Some b\<rparr>)))"
proof -
  from merge_Inr[OF assms] obtain nn ul where
    nn: "uniqueNewNodes g ns = Inr nn"
    and n: "nodes g' = nodes g @ initPositions r 0 nn" and l: "links g' = links g @ ul"
    by blast
  from uniqueNewNodes_Inr[OF nn] obtain ns0 where ns0: "ns = map Some ns0"
    and nnf: "nn = filter (\<lambda>n. node_id n \<notin> set (map node_id (nodes g))) ns0" by blast
  let ?new = "initPositions r 0 nn"
  have f: "find (\<lambda>n. node_id n = i) (nodes g') = find (\<lambda>n. node_id n = i) (nodes g)"
    if "i \<in> set (map node_id (nodes g))" for i
  proof -
    from that obtain y where "find (\<lambda>n. node_id n = i) (nodes g) = Some y"
      using find_Some_ex[of "\<lambda>n. node_id n = i" "nodes g"] by auto
    then show ?thesis by (simp add: n find_append_Some)
  qed
  have d: "node_id m \<notin> set (map node_id (nodes g))
           \<and> (\<exists>n. Some n \<in> set ns \<and> (\<exists>a b. m = n\<lparr>node_x := Some a, node_y := Some b\<rparr>))"
    if "m \<in> set ?new" for m
  proof -
    from initPositions_mem[OF that] obtain n0 a b where
      n0: "n0 \<in> set nn" and m: "m = n0\<lparr>node_x := Some a, node_y := Some b\<rparr>"
      by blast
    have "node_id m = node_id n0" by (simp add: m)
    moreover have "Some n0 \<in> set ns" "node_id n0 \<notin> set (map node_id (nodes g))"
      using n0 by (simp_all add: nnf ns0)
    ultimately show ?thesis using m by auto
  qed
  show ?thesis using f d by (simp add: n l)
qed

theorem C7_merge_frame_witness:
  "mergeGraphData rnd_half unMerged (Array [Some unRenamed, Some bobNode]) (Array [])
      = Inr (unBob, True)
   \<and> take (length (nodes unMerged)) (nodes unBob) = nodes unMerged
   \<and> take (length (links unMerged)) (links unBob) = links unMerged
   \<and> ''UN'' \<in> set (map node_id (nodes unMerged))
   \<and> find (\<lambda>n. node_id n = ''UN'') (nodes unBob) = Some (placed unNode)
   \<and> drop (length (nodes unMerged)) (nodes unBob) = [placed bobNode]"
proof -
  have h: "mergeGraphData rnd_half unMerged (Array [Some unRenamed, Some bobNode]) (Array [])
             = Inr (unBob, True)"
    by (simp add: ev)
  have i: "''UN'' \<in> set (map node_id (nodes unMerged))" by (simp add: ev)
  have o: "find (\<lambda>n. node_id n = ''UN'') (nodes unMerged) = Some (placed unNode)"
    by (simp add: ev)
  have d: "drop (length (nodes unMerged)) (nodes unBob) = [placed bobNode]"
    by (simp add: unBob_def)
  from C7_merge_frame[OF h] have
    t1: "take (length (nodes unMerged)) (nodes unBob) = nodes unMerged" and
    t2: "take (length (links unMerged)) (links unBob) = links unMerged" and
    f: "\<forall>i \<in> set (map node_id (nodes unMerged)).
          find (\<lambda>n. node_id n = i) (nodes unBob) = find (\<lambda>n. node_id n = i) (nodes unMerged)"
    by blast+
  from f i have "find (\<lambda>n. node_id n = ''UN'') (nodes unBob)
                   = find (\<lambda>n. node_id n = ''UN'') (nodes unMerged)"
    by (rule bspec)
  then have "find (\<lambda>n. node_id n = ''UN'') (nodes unBob) = Some (placed unNode)"
    using o by simp
  then show ?thesis using h t1 t2 i d by simp
qed

section \<open>Malformed input of the merge\<close>

text \<open>
  When the merge raises: exactly when the candidate nodes are not an array or have a
  \<open>null\<close> element, when a candidate link is \<open>null\<close> or has a \<open>null\<close> endpoint, or when a
  link of the previous graph has a \<open>null\<close> endpoint. A candidate link list that is not an
  array does not make it raise.
\<close>

lemma existingLinkSigs_Inl:
  "(\<exists>e. existingLinkSigs g = Inl e) \<longleftrightarrow> (\<exists>l \<in> set (links g). nullEndpoint l)"
proof
  assume "\<exists>e. existingLinkSigs g = Inl e"
  then show "\<exists>l \<in> set (links g). nullEndpoint l"
    unfolding existingLinkSigs_def using js_map_Inl linkSig_Inl by blast
next
  assume a: "\<exists>l \<in> set (links g). nullEndpoint l"
  show "\<exists>e. existingLinkSigs g = Inl e"
  proof (cases "existingLinkSigs g")
    case (Inl e)
    then show ?thesis by blast
  next
    case (Inr sigs)
    from existingLinkSigs_Inr[OF this] a show ?thesis by blast
  qed
qed

lemma newLinksAgainst_Inl_iff:
  "(\<exists>e. newLinksAgainst sigs ls = Inl e)
     \<longleftrightarrow> None \<in> set ls \<or> (\<exists>l. Some l \<in> set ls \<and> nullEndpoint l)"
proof
  assume "\<exists>e. newLinksAgainst sigs ls = Inl e"
  then show "None \<in> set ls \<or> (\<exists>l. Some l \<in> set ls \<and> nullEndpoint l)"
    using newLinksAgainst_Inl by blast
next
  assume a: "None \<in> set ls \<or> (\<exists>l. Some l \<in> set ls \<and> nullEndpoint l)"
  show "\<exists>e. newLinksAgainst sigs ls = Inl e"
  proof (cases "newLinksAgainst sigs ls")
    case (Inl e)
    then show ?thesis by blast
  next
    case (Inr r)
    from newLinksAgainst_Inr_no_None[OF this] a show ?thesis by blast
  qed
qed

lemma uniqueNewNodes_Inl_iff: "(\<exists>e. uniqueNewNodes g ns = Inl e) \<longleftrightarrow> None \<in> set ns"
proof
  assume "\<exists>e. uniqueNewNodes g ns = Inl e"
  then show "None \<in> set ns" using uniqueNewNodes_Inl by blast
next
  assume a: "None \<in> set ns"
  show "\<exists>e. uniqueNewNodes g ns = Inl e"
  proof (cases "uniqueNewNodes g ns")
    case (Inl e)
    then show ?thesis by blast
  next
    case (Inr r)
    from uniqueNewNodes_Inr_no_None[OF this] a show ?thesis by blast
  qed
qed

lemma uniqueNewLinks_Inl_iff:
  "(\<exists>e. uniqueNewLinks g ls = Inl e)
     \<longleftrightarrow> (\<exists>l \<in> set (links g). nullEndpoint l)
         \<or> None \<in> set ls \<or> (\<exists>l. Some l \<in> set ls \<and> nullEndpoint l)"
proof (cases "existingLinkSigs g")
  case (Inl e)
  then have "\<exists>l \<in> set (links g). nullEndpoint l" using existingLinkSigs_Inl by blast
  with Inl show ?thesis by (simp add: uniqueNewLinks_def)
next
  case (Inr sigs)
  then have "\<not> (\<exists>l \<in> set (links g). nullEndpoint l)"
    using existingLinkSigs_Inl[of g] by auto
  with Inr show ?thesis
    using newLinksAgainst_Inl_iff[of sigs ls] by (simp add: uniqueNewLinks_def)
qed

lemma merge_raises_iff:
  "(\<exists>e. mergeGraphData r g newNodes newLinks = Inl e) \<longleftrightarrow>
     newNodes = NotArray
     \<or> (\<exists>ns. newNodes = Array ns \<and> None \<in> set ns)
     \<or> (\<exists>l \<in> set (links g). nullEndpoint l)
     \<or> None \<in> set (safeLinks newLinks)
     \<or> (\<exists>l. Some l \<in> set (safeLinks newLinks) \<and> nullEndpoint l)"
proof (cases newNodes)
  case NotArray
  then show ?thesis by (simp add: mergeGraphData_def)
next
  case (Array ns)
  have "(\<exists>e. mergeGraphData r g (Array ns) newLinks = Inl e)
          \<longleftrightarrow> (\<exists>e. uniqueNewNodes g ns = Inl e) \<or> (\<exists>e. uniqueNewLinks g (safeLinks newLinks) = Inl e)"
    by (cases "uniqueNewNodes g ns"; cases "uniqueNewLinks g (safeLinks newLinks)")
       (simp_all add: mergeGraphData_def Let_def)
  then show ?thesis
    using Array uniqueNewNodes_Inl_iff[of g ns] uniqueNewLinks_Inl_iff[of g "safeLinks newLinks"]
    by auto
qed


section \<open>Pacing and order of the background queue\<close>

lemmas [ev] = analyzeArticle_def schedule_def processingIds_def mergeOrder_def slowThenFast_def
  allFast_def

lemma queue_later_times:
  "map fst (processBackgroundQueue (Suc i) now items)
     = map (\<lambda>k. now + 2000 * (k + 1)) [0..<length items]"
proof (induction items arbitrary: i now)
  case Nil
  then show ?case by simp
next
  case (Cons a items)
  have "[0..<length (a # items)] = 0 # map Suc [0..<length items]"
    by (simp add: upt_conv_Cons map_Suc_upt del: upt_Suc)
  then show ?case using Cons.IH[of "Suc i" "now + 2000"]
    by (simp add: Let_def comp_def)
qed

lemma queue_items: "map snd (processBackgroundQueue i now items) = items"
  by (induction items arbitrary: i now) (simp_all add: Let_def)

lemma queue_times:
  "map fst (processBackgroundQueue 0 now items) = map (\<lambda>k. now + 2000 * k) [0..<length items]"
proof (cases items)
  case Nil
  then show ?thesis by simp
next
  case (Cons a rest)
  have "[0..<length (a # rest)] = 0 # map Suc [0..<length rest]"
    by (simp add: upt_conv_Cons map_Suc_upt del: upt_Suc)
  then show ?thesis using queue_later_times[of 0 now rest] Cons
    by (simp add: Let_def comp_def)
qed

lemma sequential_later:
  "sequential (map analyzeArticle ((t, a, l) # processBackgroundQueue (Suc i) t items))
     \<longleftrightarrow> list_all (\<lambda>(a, l). l \<le> 2000) (butlast ((a, l) # items))"
proof (induction items arbitrary: i t a l)
  case Nil
  then show ?case by simp
next
  case (Cons b items)
  obtain b1 b2 where b: "b = (b1, b2)" by (cases b)
  show ?case using Cons.IH[of "t + 2000" b1 b2 "Suc i"]
    by (simp add: Let_def analyzeArticle_def b)
qed

text \<open>
  C9, as stated, fails. The loop does not await \<open>analyzeArticle\<close>. With two subjects whose
  enrichment calls take 5000 ms and 100 ms, the second subject begins at 2000 ms while the
  first is still in flight (both ids are in \<open>processingIds\<close>), and the second subject's
  merge is applied at 2100 ms, before the first subject's at 5000 ms: the merges are not in
  enqueue order.
\<close>

theorem C9_subjects_overlap:
  "schedule slowThenFast = [\<lparr>subject = ''news-a'', begins = 0, settles = 5000\<rparr>,
                            \<lparr>subject = ''news-b'', begins = 2000, settles = 2100\<rparr>]
   \<and> \<not> sequential (schedule slowThenFast)
   \<and> processingIds (schedule slowThenFast) 2000 = [''news-a'', ''news-b'']
   \<and> map fst slowThenFast = [''news-a'', ''news-b'']
   \<and> mergeOrder (schedule slowThenFast) = [''news-b'', ''news-a'']"
  by (simp add: ev)

text \<open>
  C9, amended. The queue begins the subjects in enqueue order, the first at once and each
  later one 2000 ms after the one before it, whatever the enrichment calls do; it does not
  wait for a subject to settle. The subjects are processed one after the other exactly
  when every enrichment call but the last settles within the 2000 ms of pacing.
\<close>

theorem C9_paced_starts:
  "map begins (schedule items) = map (\<lambda>k. 2000 * k) [0..<length items]
   \<and> map subject (schedule items) = map fst items
   \<and> (sequential (schedule items) \<longleftrightarrow> list_all (\<lambda>(a, l). l \<le> 2000) (butlast items))"
proof -
  have b: "begins \<circ> analyzeArticle = fst" by (auto simp: analyzeArticle_def)
  have s: "subject \<circ> analyzeArticle = fst \<circ> snd" by (auto simp: analyzeArticle_def)
  have 1: "map begins (schedule items) = map (\<lambda>k. 2000 * k) [0..<length items]"
    using queue_times[of 0 items] by (simp add: schedule_def b)
  have "map subject (schedule items) = map fst (map snd (processBackgroundQueue 0 0 items))"
    by (simp add: schedule_def s)
  then have 2: "map subject (schedule items) = map fst items"
    by (simp only: queue_items)
  have 3: "sequential (schedule items) \<longleftrightarrow> list_all (\<lambda>(a, l). l \<le> 2000) (butlast items)"
  proof (cases items)
    case Nil
    then show ?thesis by (simp add: schedule_def)
  next
    case (Cons x rest)
    obtain a l where x: "x = (a, l)" by (cases x)
    show ?thesis using sequential_later[of 0 a l 0 rest]
      by (simp add: schedule_def Cons x Let_def)
  qed
  show ?thesis using 1 2 3 by simp
qed

theorem C9_paced_starts_witness:
  "map begins (schedule allFast) = [0, 2000, 4000]
   \<and> map subject (schedule allFast) = [''news-a'', ''news-b'', ''news-c'']
   \<and> list_all (\<lambda>(a, l). l \<le> 2000) (butlast allFast)
   \<and> sequential (schedule allFast)
   \<and> mergeOrder (schedule allFast) = [''news-a'', ''news-b'', ''news-c'']"
proof -
  have l: "list_all (\<lambda>(a, l). l \<le> 2000) (butlast allFast)" by (simp add: allFast_def)
  have u: "map (\<lambda>k. 2000 * k) [0..<length allFast] = [0, 2000, 4000::nat]"
    by (simp add: allFast_def upt_conv_Cons del: upt_Suc)
  have m: "mergeOrder (schedule allFast) = [''news-a'', ''news-b'', ''news-c'']"
    by (simp add: ev)
  have f: "map fst allFast = [''news-a'', ''news-b'', ''news-c'']" by (simp add: allFast_def)
  show ?thesis using C9_paced_starts[of allFast] l u m f by simp
qed

section \<open>The intel feed never rejects\<close>

lemmas [ev] = initAi_def promptContext_def ensureArray_def mkArticle_def fallbackArticle_def
  parsedData_def fetchBody_def fetchGlobalIntel_def demoResponse_def demoEnv_def nullItems_def
  floodItems_def floodArticle_def

lemma showNat_0 [ev]: "showNat 0 = ''0''"
  by (subst showNat.simps) simp

lemma mkArticle_null: "mkArticle e r i JNull = Inl TypeError"
  by (simp add: mkArticle_def)

lemma mkArticle_ok: "item \<noteq> JNull \<Longrightarrow> \<exists>a. mkArticle e r i item = Inr a"
  by (cases item) (simp_all add: mkArticle_def)

lemma mkArticle_error: "mkArticle e r i item = Inl err \<Longrightarrow> item = JNull"
  using mkArticle_ok[of item e r i] by auto

lemma mapArticles_ok:
  "JNull \<notin> set items \<Longrightarrow>
     \<exists>as. mapArticles e r i items = Inr as \<and> length as = length items"
proof (induction items arbitrary: i)
  case Nil
  then show ?case by simp
next
  case (Cons item items)
  from Cons.prems have "item \<noteq> JNull" by auto
  then obtain a where a: "mkArticle e r i item = Inr a" using mkArticle_ok by blast
  from Cons.prems have "JNull \<notin> set items" by simp
  from Cons.IH[OF this, of "i + 1"] obtain as where
    "mapArticles e r (i + 1) items = Inr as" "length as = length items" by blast
  then show ?case using a by simp
qed

lemma mapArticles_null:
  "JNull \<in> set items \<Longrightarrow> mapArticles e r i items = Inl TypeError"
proof (induction items arbitrary: i)
  case Nil
  then show ?case by simp
next
  case (Cons item items)
  show ?case
  proof (cases "item = JNull")
    case True
    then show ?thesis by (simp add: mkArticle_null)
  next
    case False
    then obtain a where a: "mkArticle e r i item = Inr a" using mkArticle_ok by blast
    from False Cons.prems have "JNull \<in> set items" by auto
    from Cons.IH[OF this, of "i + 1"] show ?thesis using a by simp
  qed
qed

lemma fetch_with_key:
  "initAi e \<Longrightarrow> fetchGlobalIntel e topic =
     (case fetchBody e topic of Inl err \<Rightarrow> Inr [fallbackArticle e] | Inr as \<Rightarrow> Inr as)"
  by (simp add: fetchGlobalIntel_def)

lemma fetch_throws:
  "initAi e \<Longrightarrow> generateContent e (promptContext topic) = Throws \<Longrightarrow>
     fetchGlobalIntel e topic = Inr [fallbackArticle e]"
  by (simp add: fetchGlobalIntel_def fetchBody_def)

lemma fetch_unparseable:
  assumes "initAi e" "generateContent e (promptContext topic) = Returns r"
    and "parsedData e r = JArr []"
  shows "fetchGlobalIntel e topic = Inr []"
  using assms by (simp add: fetchGlobalIntel_def fetchBody_def ensureArray_def)

lemma fetch_built:
  assumes "initAi e" "generateContent e (promptContext topic) = Returns r"
    and "JNull \<notin> set (ensureArray (parsedData e r))"
  shows "\<exists>as. fetchGlobalIntel e topic = Inr as
            \<and> mapArticles e r 0 (ensureArray (parsedData e r)) = Inr as
            \<and> length as = length (ensureArray (parsedData e r))"
proof -
  from mapArticles_ok[OF assms(3), of e r 0] obtain as where
    as: "mapArticles e r 0 (ensureArray (parsedData e r)) = Inr as"
        "length as = length (ensureArray (parsedData e r))" by blast
  then show ?thesis using assms(1,2) by (simp add: fetchGlobalIntel_def fetchBody_def)
qed

lemma fetch_null_item:
  assumes "initAi e" "generateContent e (promptContext topic) = Returns r"
    and "JNull \<in> set (ensureArray (parsedData e r))"
  shows "fetchGlobalIntel e topic = Inr [fallbackArticle e]"
  using assms mapArticles_null[OF assms(3), of e r 0]
  by (simp add: fetchGlobalIntel_def fetchBody_def)

lemma fetch_rejects:
  "fetchGlobalIntel e topic = Inl err \<Longrightarrow> err = ApiKeyNotFound \<and> \<not> initAi e"
  by (auto simp: fetchGlobalIntel_def split: if_splits sum.splits)

lemma parsedData_unparseable:
  "JSON_parse e (case response_text r of Some t \<Rightarrow> if t \<noteq> [] then t else ''[]'' | None \<Rightarrow> ''[]'') = None
     \<Longrightarrow> parsedData e r = JArr []"
  by (simp add: parsedData_def)

text \<open>
  C10, as stated, fails in one case. With a key configured, a call that returns, and a
  response that parses to the object \<open>{"items": [null]}\<close> (not array-shaped), the recovered
  list is \<open>[null]\<close>; reading \<open>item.title\<close> of \<open>null\<close> raises inside the \<open>try\<close>, and the function
  resolves with the fallback article, not with articles built from the recovered list.
\<close>

theorem C10_null_item_falls_back:
  "initAi (demoEnv (Returns demoResponse) (Some nullItems))
   \<and> \<not> isArray nullItems
   \<and> ensureArray (parsedData (demoEnv (Returns demoResponse) (Some nullItems)) demoResponse) = [JNull]
   \<and> fetchGlobalIntel (demoEnv (Returns demoResponse) (Some nullItems)) None
        = Inr [fallbackArticle (demoEnv (Returns demoResponse) (Some nullItems))]
   \<and> article_id (fallbackArticle (demoEnv (Returns demoResponse) (Some nullItems))) = ''mock-1''"
  by (simp add: ev)

text \<open>
  C10, amended. The only rejection of \<open>fetchGlobalIntel\<close> is "API Key not found", and it
  occurs only when no key is configured. With a key: if the call to the model throws, the
  function resolves with exactly the fallback article (id \<open>mock-1\<close>, risk level \<open>HIGH\<close>); if
  the call returns and the response text does not parse, it resolves with the empty list;
  if the list taken from the parsed value (the array itself, the first array among the
  values of an object, or else the empty list) has no \<open>null\<close> element, it resolves with
  the articles built from that list, one for each element; and if that list has a \<open>null\<close>
  element, it resolves with the fallback article.
\<close>

theorem C10_fetchGlobalIntel_resolves:
  "(fetchGlobalIntel e topic = Inl err \<longrightarrow> err = ApiKeyNotFound \<and> \<not> initAi e)
   \<and> (initAi e \<longrightarrow>
        (generateContent e (promptContext topic) = Throws \<longrightarrow>
           fetchGlobalIntel e topic = Inr [fallbackArticle e])
      \<and> (\<forall>r. generateContent e (promptContext topic) = Returns r \<longrightarrow>
           (JSON_parse e (case response_text r of Some t \<Rightarrow> if t \<noteq> [] then t else ''[]''
                                                 | None \<Rightarrow> ''[]'') = None \<longrightarrow>
              fetchGlobalIntel e topic = Inr [])
         \<and> (JNull \<notin> set (ensureArray (parsedData e r)) \<longrightarrow>
              (\<exists>as. fetchGlobalIntel e topic = Inr as
                  \<and> mapArticles e r 0 (ensureArray (parsedData e r)) = Inr as
                  \<and> length as = length (ensureArray (parsedData e r))))
         \<and> (JNull \<in> set (ensureArray (parsedData e r)) \<longrightarrow>
              fetchGlobalIntel e topic = Inr [fallbackArticle e])))
   \<and> article_id (fallbackArticle e) = ''mock-1''
   \<and> riskLevel (fallbackArticle e) = JStr ''HIGH''"
proof -
  have 1: "fetchGlobalIntel e topic = Inl err \<longrightarrow> err = ApiKeyNotFound \<and> \<not> initAi e"
    using fetch_rejects by blast
  have 2: "fetchGlobalIntel e topic = Inr []"
    if "initAi e" "generateContent e (promptContext topic) = Returns r"
       "JSON_parse e (case response_text r of Some t \<Rightarrow> if t \<noteq> [] then t else ''[]''
                                             | None \<Rightarrow> ''[]'') = None" for r
    using that fetch_unparseable parsedData_unparseable by blast
  have 3: "article_id (fallbackArticle e) = ''mock-1''" "riskLevel (fallbackArticle e) = JStr ''HIGH''"
    by (simp_all add: fallbackArticle_def)
  show ?thesis
    using 1 2 3 fetch_throws[of e topic] fetch_built[of e topic] fetch_null_item[of e topic]
    by blast
qed

theorem C10_fetchGlobalIntel_resolves_witness:
  "initAi (demoEnv (Returns demoResponse) (Some floodItems))
   \<and> generateContent (demoEnv (Returns demoResponse) (Some floodItems)) (promptContext None)
        = Returns demoResponse
   \<and> ensureArray (parsedData (demoEnv (Returns demoResponse) (Some floodItems)) demoResponse)
        = [JObj [(''title'', JStr ''Flood'')]]
   \<and> fetchGlobalIntel (demoEnv (Returns demoResponse) (Some floodItems)) None = Inr [floodArticle]
   \<and> fetchGlobalIntel (demoEnv Throws None) (Some ''floods'')
        = Inr [fallbackArticle (demoEnv Throws None)]
   \<and> fetchGlobalIntel (demoEnv (Returns demoResponse) None) None = Inr []
   \<and> fetchGlobalIntel ((demoEnv Throws None)\<lparr>API_KEY := None\<rparr>) None = Inl ApiKeyNotFound
   \<and> \<not> initAi ((demoEnv Throws None)\<lparr>API_KEY := None\<rparr>)"
proof -
  let ?e = "demoEnv (Returns demoResponse) (Some floodItems)"
  have k: "initAi ?e" by (simp add: ev)
  have c: "generateContent ?e (promptContext None) = Returns demoResponse" by (simp add: ev)
  have a: "ensureArray (parsedData ?e demoResponse) = [JObj [(''title'', JStr ''Flood'')]]"
    by (simp add: ev)
  have m: "mapArticles ?e demoResponse 0 [JObj [(''title'', JStr ''Flood'')]] = Inr [floodArticle]"
    by (simp add: ev)
  from C10_fetchGlobalIntel_resolves[of ?e None] k c a m
  have f: "fetchGlobalIntel ?e None = Inr [floodArticle]" by auto
  have t: "fetchGlobalIntel (demoEnv Throws None) (Some ''floods'')
             = Inr [fallbackArticle (demoEnv Throws None)]"
    using C10_fetchGlobalIntel_resolves[of "demoEnv Throws None" "Some ''floods''"]
    by (simp add: ev)
  have u: "fetchGlobalIntel (demoEnv (Returns demoResponse) None) None = Inr []"
    using C10_fetchGlobalIntel_resolves[of "demoEnv (Returns demoResponse) None" None]
    by (simp add: ev)
  have n: "fetchGlobalIntel ((demoEnv Throws None)\<lparr>API_KEY := None\<rparr>) None = Inl ApiKeyNotFound"
          "\<not> initAi ((demoEnv Throws None)\<lparr>API_KEY := None\<rparr>)"
    by (simp_all add: ev)
  show ?thesis using k c a f t u n by simp
qed

end
